theory Spec2Isabelle
  imports Main "HOL-Library.Char_ord" "HOL-Library.List_Lexorder" "HOL-Library.Multiset"
begin

unbundle bit_operations_syntax

section \<open>Strings and byte slices\<close>

text \<open>
  A Go \<open>string\<close> is an immutable sequence of bytes and \<open>[]byte(s)\<close> has the same
  content, so both are lists of 8-bit characters here. The order on strings used by
  \<open>sort.Strings\<close> (the operator \<open><\<close> on strings) compares byte by byte; it is the
  lexicographic order on lists over the order of characters by their byte value.
\<close>

type_synonym bytes = "char list"

subsection \<open>strings.TrimSpace\<close>

text \<open>
  \<open>strings.TrimSpace\<close> removes leading and trailing white space as defined by
  \<open>unicode.IsSpace\<close>. Go decodes the string as UTF-8 and rejects overlong forms, so a
  rune at the start (or the end) of a string is white space exactly when the string
  starts (ends) with the UTF-8 encoding of one of the white-space code points:
  U+0009..U+000D, U+0020, U+0085, U+00A0, U+1680, U+2000..U+200A, U+2028, U+2029,
  U+202F, U+205F, U+3000.
\<close>

definition spaceRunes :: "string list" where
  "spaceRunes =
    [[CHR 0x09], [CHR 0x0A], [CHR 0x0B], [CHR 0x0C], [CHR 0x0D], [CHR 0x20],
     [CHR 0xC2, CHR 0x85], [CHR 0xC2, CHR 0xA0],
     [CHR 0xE1, CHR 0x9A, CHR 0x80],
     [CHR 0xE2, CHR 0x80, CHR 0x80], [CHR 0xE2, CHR 0x80, CHR 0x81],
     [CHR 0xE2, CHR 0x80, CHR 0x82], [CHR 0xE2, CHR 0x80, CHR 0x83],
     [CHR 0xE2, CHR 0x80, CHR 0x84], [CHR 0xE2, CHR 0x80, CHR 0x85],
     [CHR 0xE2, CHR 0x80, CHR 0x86], [CHR 0xE2, CHR 0x80, CHR 0x87],
     [CHR 0xE2, CHR 0x80, CHR 0x88], [CHR 0xE2, CHR 0x80, CHR 0x89],
     [CHR 0xE2, CHR 0x80, CHR 0x8A],
     [CHR 0xE2, CHR 0x80, CHR 0xA8], [CHR 0xE2, CHR 0x80, CHR 0xA9],
     [CHR 0xE2, CHR 0x80, CHR 0xAF],
     [CHR 0xE2, CHR 0x81, CHR 0x9F],
     [CHR 0xE3, CHR 0x80, CHR 0x80]]"

definition HasPrefix :: "string \<Rightarrow> string \<Rightarrow> bool" where
  "HasPrefix s p = (take (length p) s = p)"

definition HasSuffix :: "string \<Rightarrow> string \<Rightarrow> bool" where
  "HasSuffix s p = (length p \<le> length s \<and> drop (length s - length p) s = p)"

definition leadSpace :: "string \<Rightarrow> string option" where
  "leadSpace s = find (HasPrefix s) spaceRunes"

definition trailSpace :: "string \<Rightarrow> string option" where
  "trailSpace s = find (HasSuffix s) spaceRunes"

lemma spaceRunes_nonempty: "e \<in> set spaceRunes \<Longrightarrow> e \<noteq> []"
  by (auto simp: spaceRunes_def)

lemma leadSpace_Some: "leadSpace s = Some e \<Longrightarrow> e \<noteq> [] \<and> length e \<le> length s \<and> take (length e) s = e"
  unfolding leadSpace_def find_Some_iff HasPrefix_def
  by (metis length_take min.cobounded1 nth_mem spaceRunes_nonempty)

lemma trailSpace_Some:
  "trailSpace s = Some e \<Longrightarrow> e \<noteq> [] \<and> length e \<le> length s \<and> drop (length s - length e) s = e"
  unfolding trailSpace_def find_Some_iff HasSuffix_def
  by (metis nth_mem spaceRunes_nonempty)

function TrimLeft :: "string \<Rightarrow> string" where
  "TrimLeft s = (case leadSpace s of None \<Rightarrow> s | Some e \<Rightarrow> TrimLeft (drop (length e) s))"
  by pat_completeness auto
termination
proof (relation "measure length")
  show "wf (measure length)" by simp
next
  fix s e assume "leadSpace s = Some e"
  then have "e \<noteq> []" "length e \<le> length s" by (auto dest: leadSpace_Some)
  then show "(drop (length e) s, s) \<in> measure length" by (cases e) auto
qed

function TrimRight :: "string \<Rightarrow> string" where
  "TrimRight s = (case trailSpace s of None \<Rightarrow> s | Some e \<Rightarrow> TrimRight (take (length s - length e) s))"
  by pat_completeness auto
termination
proof (relation "measure length")
  show "wf (measure length)" by simp
next
  fix s e assume "trailSpace s = Some e"
  then have "e \<noteq> []" "length e \<le> length s" by (auto dest: trailSpace_Some)
  then show "(take (length s - length e) s, s) \<in> measure length" by (cases e) auto
qed

declare TrimLeft.simps [simp del] TrimRight.simps [simp del]

definition TrimSpace :: "string \<Rightarrow> string" where
  "TrimSpace s = TrimRight (TrimLeft s)"


subsection \<open>strings.Join and sort.Strings\<close>

text \<open>\<open>strings.Join(elems, sep)\<close>: the first element, then each further element after a
  separator; nothing for no element.\<close>

fun Join :: "string list \<Rightarrow> string \<Rightarrow> string" where
  "Join [] sep = []"
| "Join (x # xs) sep = x @ concat (map (\<lambda>e. sep @ e) xs)"

text \<open>\<open>sort.Strings\<close> sorts increasingly by \<open><\<close> on strings. The order is linear, so
  the result is the one sorted permutation, whatever the algorithm.\<close>

definition Strings :: "string list \<Rightarrow> string list" where
  "Strings xs = sort xs"

section \<open>Machine integers\<close>

text \<open>\<open>int64\<close> values are integers in \<open>[-2^63, 2^63)\<close>; arithmetic on them wraps around.\<close>

definition int64 :: "int \<Rightarrow> bool" where
  "int64 x = (- (2 ^ 63) \<le> x \<and> x < 2 ^ 63)"

definition w64 :: "int \<Rightarrow> int" where
  "w64 x = (x + 2 ^ 63) mod 2 ^ 64 - 2 ^ 63"

text \<open>Go's \<open>/\<close> and \<open>%\<close> on integers truncate towards zero.\<close>

definition quot :: "int \<Rightarrow> int \<Rightarrow> int" where
  "quot a b = sgn a * sgn b * (\<bar>a\<bar> div \<bar>b\<bar>)"

definition rem :: "int \<Rightarrow> int \<Rightarrow> int" where
  "rem a b = sgn a * (\<bar>a\<bar> mod \<bar>b\<bar>)"

section \<open>strconv.ParseInt\<close>

datatype NumError = ErrSyntax | ErrRange

definition maxUint64 :: int where
  "maxUint64 = 2 ^ 64 - 1"

text \<open>The digit loop of \<open>strconv.ParseUint(s, 10, 64)\<close>. A byte that is no decimal digit
  is a syntax error (the underscore is allowed with base 0 only, letters are digits of
  larger bases); \<open>n\<close> is a \<open>uint64\<close> (an integer in \<open>[0, 2^64)\<close>), and the overflow of \<open>n*10 + d\<close> is detected by the
  wrapped sum being smaller than \<open>n*10\<close>.\<close>

fun parseDigits :: "int \<Rightarrow> string \<Rightarrow> int \<times> NumError option" where
  "parseDigits n [] = (n, None)"
| "parseDigits n (c # cs) =
     (if \<not> (CHR ''0'' \<le> c \<and> c \<le> CHR ''9'') then (0, Some ErrSyntax)
      else
        let d = of_char c - of_char CHR ''0'' in
        if n \<ge> maxUint64 div 10 + 1 then (maxUint64, Some ErrRange)
        else
          let n10 = n * 10; n1 = (n10 + d) mod 2 ^ 64 in
          if n1 < n10 \<or> n1 > maxUint64 then (maxUint64, Some ErrRange)
          else parseDigits n1 cs)"

definition ParseUint :: "string \<Rightarrow> int \<times> NumError option" where
  "ParseUint s = (if s = [] then (0, Some ErrSyntax) else parseDigits 0 s)"

text \<open>\<open>strconv.ParseInt(s, 10, 64)\<close>: an optional sign, then \<open>ParseUint\<close>, then the range
  check against \<open>2^63\<close>.\<close>

definition ParseInt :: "string \<Rightarrow> int \<times> NumError option" where
  "ParseInt s0 =
     (if s0 = [] then (0, Some ErrSyntax)
      else
        let neg = (hd s0 = CHR ''-'');
            s = (if hd s0 = CHR ''+'' \<or> hd s0 = CHR ''-'' then tl s0 else s0);
            (un, err) = ParseUint s
        in
          if err \<noteq> None \<and> err \<noteq> Some ErrRange then (0, err)
          else if \<not> neg \<and> un \<ge> 2 ^ 63 then (2 ^ 63 - 1, Some ErrRange)
          else if neg \<and> un > 2 ^ 63 then (- (2 ^ 63), Some ErrRange)
          else
            let n = w64 un in
            (if neg then w64 (- n) else n, None))"

section \<open>encoding/hex\<close>

datatype hexError = InvalidByteError char | ErrLength

text \<open>\<open>reverseHexTable\<close>: the value of a hexadecimal digit (either case), 255 for any
  other byte.\<close>

definition reverseHexTable :: "char \<Rightarrow> int" where
  "reverseHexTable c =
     (if CHR ''0'' \<le> c \<and> c \<le> CHR ''9'' then of_char c - of_char CHR ''0''
      else if CHR ''a'' \<le> c \<and> c \<le> CHR ''f'' then of_char c - of_char CHR ''a'' + 10
      else if CHR ''A'' \<le> c \<and> c \<le> CHR ''F'' then of_char c - of_char CHR ''A'' + 10
      else 255)"

text \<open>\<open>hex.Decode\<close>: two digits a byte; the bytes decoded before an error are returned
  with it. An odd length is reported after an invalid last byte.\<close>

fun Decode :: "string \<Rightarrow> bytes \<times> hexError option" where
  "Decode [] = ([], None)"
| "Decode [p] =
     (if reverseHexTable p > 15 then ([], Some (InvalidByteError p)) else ([], Some ErrLength))"
| "Decode (p # q # rest) =
     (let a = reverseHexTable p; b = reverseHexTable q in
      if a > 15 then ([], Some (InvalidByteError p))
      else if b > 15 then ([], Some (InvalidByteError q))
      else (case Decode rest of (bs, err) \<Rightarrow> (char_of (push_bit 4 a OR b) # bs, err)))"

definition DecodeString :: "string \<Rightarrow> bytes \<times> hexError option" where
  "DecodeString s = Decode s"

definition hextable :: string where
  "hextable = ''0123456789abcdef''"

definition EncodeToString :: "bytes \<Rightarrow> string" where
  "EncodeToString src =
     concat (map (\<lambda>v. [hextable ! (of_char v div 16), hextable ! (of_char v mod 16)]) src)"


section \<open>crypto/sha256, crypto/hmac, crypto/subtle\<close>

text \<open>
  SHA-256 as in FIPS 180-4, which \<open>sha256.Sum256\<close> and \<open>sha256.New\<close> implement. A
  \<open>uint32\<close> is an integer in \<open>[0, 2^32)\<close>; additions are reduced modulo \<open>2^32\<close>
  (\<open>take_bit 32\<close>), and the rotations work on 32 bits.
\<close>

definition u32 :: "int \<Rightarrow> int" where
  "u32 x = take_bit 32 x"

definition rotr :: "nat \<Rightarrow> int \<Rightarrow> int" where
  "rotr n x = u32 (drop_bit n x OR push_bit (32 - n) x)"

definition bsig0 :: "int \<Rightarrow> int" where
  "bsig0 x = rotr 2 x XOR rotr 13 x XOR rotr 22 x"

definition bsig1 :: "int \<Rightarrow> int" where
  "bsig1 x = rotr 6 x XOR rotr 11 x XOR rotr 25 x"

definition ssig0 :: "int \<Rightarrow> int" where
  "ssig0 x = rotr 7 x XOR rotr 18 x XOR drop_bit 3 x"

definition ssig1 :: "int \<Rightarrow> int" where
  "ssig1 x = rotr 17 x XOR rotr 19 x XOR drop_bit 10 x"

text \<open>The round constants are the first 32 bits of the fractional parts of the cube
  roots of the first 64 primes, the initial state those of the square roots of the
  first 8 primes (both checked below against that description).\<close>

definition K256 :: "int list" where
  "K256 =
    [1116352408, 1899447441, 3049323471, 3921009573, 961987163, 1508970993, 2453635748, 2870763221,
     3624381080, 310598401, 607225278, 1426881987, 1925078388, 2162078206, 2614888103, 3248222580,
     3835390401, 4022224774, 264347078, 604807628, 770255983, 1249150122, 1555081692, 1996064986,
     2554220882, 2821834349, 2952996808, 3210313671, 3336571891, 3584528711, 113926993, 338241895,
     666307205, 773529912, 1294757372, 1396182291, 1695183700, 1986661051, 2177026350, 2456956037,
     2730485921, 2820302411, 3259730800, 3345764771, 3516065817, 3600352804, 4094571909, 275423344,
     430227734, 506948616, 659060556, 883997877, 958139571, 1322822218, 1537002063, 1747873779,
     1955562222, 2024104815, 2227730452, 2361852424, 2428436474, 2756734187, 3204031479, 3329325298]"

type_synonym digest = "int \<times> int \<times> int \<times> int \<times> int \<times> int \<times> int \<times> int"

definition init256 :: digest where
  "init256 =
    (1779033703, 3144134277, 1013904242, 2773480762, 1359893119, 2600822924, 528734635, 1541459225)"

text \<open>Big-endian words from bytes and back.\<close>

definition be32 :: "bytes \<Rightarrow> int" where
  "be32 bs = foldl (\<lambda>acc b. push_bit 8 acc OR of_char b) 0 bs"

definition putUint32 :: "int \<Rightarrow> bytes" where
  "putUint32 w = map (\<lambda>i. char_of (drop_bit i w)) [24, 16, 8, 0]"

definition putUint64 :: "int \<Rightarrow> bytes" where
  "putUint64 w = map (\<lambda>i. char_of (drop_bit i w)) [56, 48, 40, 32, 24, 16, 8, 0]"

fun chunks :: "nat \<Rightarrow> 'a list \<Rightarrow> 'a list list" where
  "chunks n [] = []"
| "chunks n (x # xs) =
     (if n = 0 then [x # xs] else take n (x # xs) # chunks n (drop n (x # xs)))"

text \<open>The message schedule, most recent word first while it is extended.\<close>

fun schedule :: "nat \<Rightarrow> int list \<Rightarrow> int list" where
  "schedule 0 w = w"
| "schedule (Suc n) w =
     schedule n (u32 (ssig1 (w ! 1) + (w ! 6) + ssig0 (w ! 14) + (w ! 15)) # w)"

definition round256 :: "digest \<Rightarrow> int \<times> int \<Rightarrow> digest" where
  "round256 s kw =
     (case s of (a, b, c, d, e, f, g, h) \<Rightarrow>
      case kw of (k, w) \<Rightarrow>
        let t1 = u32 (h + bsig1 e + ((e AND f) XOR (u32 (NOT e) AND g)) + k + w);
            t2 = u32 (bsig0 a + ((a AND b) XOR (a AND c) XOR (b AND c)))
        in (u32 (t1 + t2), a, b, c, u32 (d + t1), e, f, g))"

definition addDigest :: "digest \<Rightarrow> digest \<Rightarrow> digest" where
  "addDigest s t =
     (case s of (a, b, c, d, e, f, g, h) \<Rightarrow>
      case t of (a', b', c', d', e', f', g', h') \<Rightarrow>
        (u32 (a + a'), u32 (b + b'), u32 (c + c'), u32 (d + d'),
         u32 (e + e'), u32 (f + f'), u32 (g + g'), u32 (h + h')))"

definition block :: "digest \<Rightarrow> bytes \<Rightarrow> digest" where
  "block s p =
     (let w = rev (schedule 48 (rev (map be32 (chunks 4 p))))
      in addDigest s (foldl round256 s (zip K256 w)))"

text \<open>Padding: the byte 0x80, zeros up to 56 modulo 64, the bit length as 64 bits.\<close>

definition pad256 :: "bytes \<Rightarrow> bytes" where
  "pad256 m =
     m @ [CHR 0x80] @ replicate ((119 - length m mod 64) mod 64) (CHR 0x00)
       @ putUint64 (take_bit 64 (push_bit 3 (int (length m))))"

definition Sum256 :: "bytes \<Rightarrow> bytes" where
  "Sum256 m =
     (case foldl block init256 (chunks 64 (pad256 m)) of
        (a, b, c, d, e, f, g, h) \<Rightarrow> concat (map putUint32 [a, b, c, d, e, f, g, h]))"

text \<open>
  HMAC (RFC 2104) over SHA-256, what \<open>hmac.New(sha256.New, key)\<close>, \<open>Write\<close> and
  \<open>Sum(nil)\<close> compute: a key longer than the block size of 64 bytes is hashed first,
  then padded with zeros.
\<close>

definition xorByte :: "int \<Rightarrow> char \<Rightarrow> char" where
  "xorByte p c = char_of (of_char c XOR p)"

definition HMAC_SHA256 :: "bytes \<Rightarrow> bytes \<Rightarrow> bytes" where
  "HMAC_SHA256 key msg =
     (let k = (if length key > 64 then Sum256 key else key);
          k0 = k @ replicate (64 - length k) (CHR 0x00);
          ipad = map (xorByte 0x36) k0;
          opad = map (xorByte 0x5c) k0
      in Sum256 (opad @ Sum256 (ipad @ msg)))"

text \<open>\<open>subtle.ConstantTimeCompare\<close> and \<open>hmac.Equal\<close>: no early exit, the differences
  of all bytes are collected in one byte.\<close>

definition ConstantTimeCompare :: "bytes \<Rightarrow> bytes \<Rightarrow> nat" where
  "ConstantTimeCompare x y =
     (if length x \<noteq> length y then 0
      else
        let v = foldl (\<lambda>v (a, b). v OR (of_char a XOR of_char b)) (0::int) (zip x y)
        in if v = 0 then 1 else 0)"

definition Equal :: "bytes \<Rightarrow> bytes \<Rightarrow> bool" where
  "Equal mac1 mac2 = (ConstantTimeCompare mac1 mac2 = 1)"


section \<open>The time package\<close>

text \<open>
  A \<open>time.Duration\<close> is an \<open>int64\<close> count of nanoseconds. Of a \<open>time.Time\<close> the
  comparisons and the arithmetic used here read the wall clock only: \<open>sec\<close>, the
  seconds since January 1 of year 1 (an \<open>int64\<close>), and \<open>nsec\<close>, the nanoseconds
  within the second, in \<open>[0, 999999999]\<close>. (A monotonic reading is ignored as soon
  as one operand has none, and the time made by \<open>time.Unix\<close> has none.)
\<close>

type_synonym Duration = int

definition Second :: Duration where
  "Second = 1000000000"

definition Minute :: Duration where
  "Minute = 60 * Second"

definition minDuration :: Duration where
  "minDuration = - (2 ^ 63)"

definition maxDuration :: Duration where
  "maxDuration = 2 ^ 63 - 1"

record Time =
  sec :: int
  nsec :: int

definition unixToInternal :: int where
  "unixToInternal = (1969 * 365 + 1969 div 4 - 1969 div 100 + 1969 div 400) * 86400"

text \<open>\<open>time.Unix(sec, nsec)\<close>: nanoseconds outside \<open>[0, 1e9)\<close> are carried into the
  seconds; the seconds are shifted to the internal epoch, in \<open>int64\<close> arithmetic.\<close>

definition Unix :: "int \<Rightarrow> int \<Rightarrow> Time" where
  "Unix s0 ns0 =
     (let (s1, ns1) =
        (if ns0 < 0 \<or> ns0 \<ge> 1000000000 then
           let n = quot ns0 1000000000;
               s = w64 (s0 + n);
               ns = w64 (ns0 - w64 (n * 1000000000))
           in if ns < 0 then (w64 (s - 1), w64 (ns + 1000000000)) else (s, ns)
         else (s0, ns0))
      in \<lparr>sec = w64 (s1 + unixToInternal), nsec = ns1\<rparr>)"

text \<open>\<open>addSec\<close> saturates instead of wrapping around.\<close>

definition addSec :: "Time \<Rightarrow> int \<Rightarrow> Time" where
  "addSec t d =
     (let sum = w64 (sec t + d) in
      if (sum > sec t) = (d > 0) then t\<lparr>sec := sum\<rparr>
      else if d > 0 then t\<lparr>sec := 2 ^ 63 - 1\<rparr>
      else t\<lparr>sec := - (2 ^ 63 - 1)\<rparr>)"

definition Add :: "Time \<Rightarrow> Duration \<Rightarrow> Time" where
  "Add t d =
     (let dsec = quot d 1000000000;
          ns = nsec t + rem d 1000000000;
          (dsec', ns') =
            (if ns \<ge> 1000000000 then (w64 (dsec + 1), ns - 1000000000)
             else if ns < 0 then (w64 (dsec - 1), ns + 1000000000)
             else (dsec, ns))
      in addSec (t\<lparr>nsec := ns'\<rparr>) dsec')"

definition After :: "Time \<Rightarrow> Time \<Rightarrow> bool" where
  "After t u = (sec t > sec u \<or> sec t = sec u \<and> nsec t > nsec u)"

definition Before :: "Time \<Rightarrow> Time \<Rightarrow> bool" where
  "Before t u = (sec t < sec u \<or> sec t = sec u \<and> nsec t < nsec u)"

definition EqualTime :: "Time \<Rightarrow> Time \<Rightarrow> bool" where
  "EqualTime t u = (sec t = sec u \<and> nsec t = nsec u)"

text \<open>\<open>t.Sub(u)\<close>: the difference computed with wrap-around is kept when adding it
  back to \<open>u\<close> gives \<open>t\<close>; otherwise the result is the smallest or the largest
  duration.\<close>

definition Sub :: "Time \<Rightarrow> Time \<Rightarrow> Duration" where
  "Sub t u =
     (let d = w64 (w64 (w64 (sec t - sec u) * Second) + (nsec t - nsec u)) in
      if EqualTime (Add u d) t then d
      else if Before t u then minDuration
      else maxDuration)"

section \<open>The package telegramauth\<close>

definition DefaultAuthTTL :: Duration where
  "DefaultAuthTTL = 5 * Minute"

definition DefaultClockSkew :: Duration where
  "DefaultClockSkew = 30 * Second"

text \<open>The sentinel errors, and \<open>Errorf e s\<close> for \<open>fmt.Errorf("%w: %q", e, s)\<close>: an error
  that wraps \<open>e\<close> and quotes the text \<open>s\<close> in its message.\<close>

datatype error =
    ErrBotTokenRequired
  | ErrTelegramIDRequired
  | ErrTelegramIDInvalid
  | ErrTelegramHashRequired
  | ErrTelegramHashInvalid
  | ErrTelegramAuthDateRequired
  | ErrTelegramAuthDateInvalid
  | ErrTelegramAuthDateExpired
  | ErrTelegramAuthDateFuture
  | Errorf error string

text \<open>\<open>errors.Is\<close>: the error itself or one it wraps.\<close>

primrec unwrap :: "error \<Rightarrow> error option" where
  "unwrap ErrBotTokenRequired = None"
| "unwrap ErrTelegramIDRequired = None"
| "unwrap ErrTelegramIDInvalid = None"
| "unwrap ErrTelegramHashRequired = None"
| "unwrap ErrTelegramHashInvalid = None"
| "unwrap ErrTelegramAuthDateRequired = None"
| "unwrap ErrTelegramAuthDateInvalid = None"
| "unwrap ErrTelegramAuthDateExpired = None"
| "unwrap ErrTelegramAuthDateFuture = None"
| "unwrap (Errorf e s) = Some e"

fun Is :: "error \<Rightarrow> error \<Rightarrow> bool" where
  "Is (Errorf e s) target = (Errorf e s = target \<or> Is e target)"
| "Is e target = (e = target)"

record VerifyConfig =
  AuthTTL :: Duration
  ClockSkew :: Duration
  Now :: "(unit \<Rightarrow> Time) option"

record AuthData =
  UserID :: int
  Username :: string
  FirstName :: string
  LastName :: string
  PhotoURL :: string
  AuthDateUnix :: int

text \<open>The zero values \<open>AuthData{}\<close> and \<open>VerifyConfig{}\<close>.\<close>

definition zeroAuthData :: AuthData where
  "zeroAuthData =
     \<lparr>UserID = 0, Username = [], FirstName = [], LastName = [], PhotoURL = [], AuthDateUnix = 0\<rparr>"

definition zeroVerifyConfig :: VerifyConfig where
  "zeroVerifyConfig = \<lparr>AuthTTL = 0, ClockSkew = 0, Now = None\<rparr>"

text \<open>
  A \<open>map[string]string\<close> is a list of entries with distinct keys. \<open>index m k\<close> is
  \<open>m[k]\<close>, the empty string for a missing key; \<open>assign m k v\<close> is \<open>m[k] = v\<close>. A
  \<open>range\<close> loop visits the entries in an unspecified order: here in the order of the list.
\<close>

type_synonym query = "(string \<times> string) list"

definition index :: "query \<Rightarrow> string \<Rightarrow> string" where
  "index m k = (case map_of m k of None \<Rightarrow> [] | Some v \<Rightarrow> v)"

fun assign :: "query \<Rightarrow> string \<Rightarrow> string \<Rightarrow> query" where
  "assign [] k v = [(k, v)]"
| "assign ((k', v') # m) k v = (if k' = k then (k, v) # m else (k', v') # assign m k v)"

text \<open>The loop of \<open>verifyHash\<close> over the entries: \<open>hash\<close> is skipped, every other
  entry is appended as \<open>key=value\<close>.\<close>

definition dataCheckPairs :: "query \<Rightarrow> string list" where
  "dataCheckPairs query =
     foldl (\<lambda>pairs (key, value).
              if key = ''hash'' then pairs else pairs @ [key @ ''='' @ value])
       [] query"

definition dataCheckString :: "query \<Rightarrow> string" where
  "dataCheckString query = Join (Strings (dataCheckPairs query)) [CHR 0x0A]"

definition verifyHash :: "query \<Rightarrow> string \<Rightarrow> string \<Rightarrow> error option" where
  "verifyHash query botToken expectedHash =
     (case DecodeString (TrimSpace expectedHash) of
        (expectedHashBytes, Some err) \<Rightarrow> Some ErrTelegramHashInvalid
      | (expectedHashBytes, None) \<Rightarrow>
          let secret = Sum256 botToken;
              calculatedHashBytes = HMAC_SHA256 secret (dataCheckString query)
          in if \<not> Equal calculatedHashBytes expectedHashBytes then Some ErrTelegramHashInvalid
             else None)"

text \<open>\<open>VerifyWithConfig\<close>. The first argument is what \<open>time.Now\<close> returns, read when
  the configuration has no clock of its own.\<close>

definition VerifyWithConfig ::
  "Time \<Rightarrow> query \<Rightarrow> string \<Rightarrow> VerifyConfig \<Rightarrow> AuthData \<times> error option" where
  "VerifyWithConfig wall query botToken0 config =
     (let botToken = TrimSpace botToken0 in
      if botToken = [] then (zeroAuthData, Some ErrBotTokenRequired)
      else
        let authTTL = (if AuthTTL config \<le> 0 then DefaultAuthTTL else AuthTTL config);
            clockSkew = (if ClockSkew config \<le> 0 then DefaultClockSkew else ClockSkew config);
            nowFn = (case Now config of None \<Rightarrow> (\<lambda>_. wall) | Some f \<Rightarrow> f);
            hash = TrimSpace (index query ''hash'')
        in
          if hash = [] then (zeroAuthData, Some ErrTelegramHashRequired)
          else
            case verifyHash query botToken hash of
              Some err \<Rightarrow> (zeroAuthData, Some err)
            | None \<Rightarrow>
                let idValue = TrimSpace (index query ''id'') in
                if idValue = [] then (zeroAuthData, Some ErrTelegramIDRequired)
                else
                  case ParseInt idValue of
                    (userID, Some err) \<Rightarrow> (zeroAuthData, Some (Errorf ErrTelegramIDInvalid idValue))
                  | (userID, None) \<Rightarrow>
                      if userID \<le> 0 then (zeroAuthData, Some (Errorf ErrTelegramIDInvalid idValue))
                      else
                        let authDateValue = TrimSpace (index query ''auth_date'') in
                        if authDateValue = [] then (zeroAuthData, Some ErrTelegramAuthDateRequired)
                        else
                          case ParseInt authDateValue of
                            (authDateUnix, Some err) \<Rightarrow>
                              (zeroAuthData, Some (Errorf ErrTelegramAuthDateInvalid authDateValue))
                          | (authDateUnix, None) \<Rightarrow>
                              let authDate = Unix authDateUnix 0;
                                  now = nowFn ()
                              in
                                if After authDate (Add now clockSkew)
                                then (zeroAuthData, Some ErrTelegramAuthDateFuture)
                                else if Sub now authDate > authTTL
                                then (zeroAuthData, Some ErrTelegramAuthDateExpired)
                                else
                                  (\<lparr>UserID = userID,
                                    Username = index query ''username'',
                                    FirstName = index query ''first_name'',
                                    LastName = index query ''last_name'',
                                    PhotoURL = index query ''photo_url'',
                                    AuthDateUnix = authDateUnix\<rparr>, None))"

definition Verify :: "Time \<Rightarrow> query \<Rightarrow> string \<Rightarrow> AuthData \<times> error option" where
  "Verify wall query botToken = VerifyWithConfig wall query botToken zeroVerifyConfig"

text \<open>\<open>url.Values\<close> is a \<open>map[string][]string\<close>; \<open>Get\<close> is the first value of a key, the
  empty string when there is none.\<close>

type_synonym Values = "(string \<times> string list) list"

definition Get :: "Values \<Rightarrow> string \<Rightarrow> string" where
  "Get v key =
     (let vs = (case map_of v key of None \<Rightarrow> [] | Some l \<Rightarrow> l) in
      if length vs = 0 then [] else vs ! 0)"

definition VerifyURLValues :: "Time \<Rightarrow> Values \<Rightarrow> string \<Rightarrow> AuthData \<times> error option" where
  "VerifyURLValues wall values botToken =
     (let query = foldl (\<lambda>query (key, _). assign query key (Get values key)) [] values
      in Verify wall query botToken)"


section \<open>Notions of the specification\<close>

text \<open>A string that consists only of white space: a sequence of white-space runes.\<close>

inductive blank :: "string \<Rightarrow> bool" where
  blank_Nil: "blank []"
| blank_Cons: "e \<in> set spaceRunes \<Longrightarrow> blank s \<Longrightarrow> blank (e @ s)"

text \<open>The policy in effect: a duration that is zero or negative stands for its
  default, and the clock is the configured one when there is one.\<close>

definition effectiveTTL :: "VerifyConfig \<Rightarrow> Duration" where
  "effectiveTTL config = (if AuthTTL config \<le> 0 then DefaultAuthTTL else AuthTTL config)"

definition effectiveSkew :: "VerifyConfig \<Rightarrow> Duration" where
  "effectiveSkew config = (if ClockSkew config \<le> 0 then DefaultClockSkew else ClockSkew config)"

definition clockReading :: "Time \<Rightarrow> VerifyConfig \<Rightarrow> Time" where
  "clockReading wall config = (case Now config of None \<Rightarrow> wall | Some f \<Rightarrow> f ())"

text \<open>The canonical check string of the specification.\<close>

fun joinLines :: "string list \<Rightarrow> string" where
  "joinLines [] = []"
| "joinLines [x] = x"
| "joinLines (x # y # ys) = x @ [CHR 0x0A] @ joinLines (y # ys)"

definition canonicalCheckString :: "query \<Rightarrow> string" where
  "canonicalCheckString input =
     joinLines (sort (map (\<lambda>(k, v). k @ ''='' @ v) (filter (\<lambda>(k, v). k \<noteq> ''hash'') input)))"

text \<open>The field validator: the checks that follow the verification of the signature.\<close>

definition fieldValidator :: "Time \<Rightarrow> query \<Rightarrow> VerifyConfig \<Rightarrow> AuthData \<times> error option" where
  "fieldValidator wall query config =
    (let idValue = TrimSpace (index query ''id'');
         authDateValue = TrimSpace (index query ''auth_date'');
         userID = fst (ParseInt idValue);
         authDateUnix = fst (ParseInt authDateValue);
         now = clockReading wall config
     in
       if idValue = [] then (zeroAuthData, Some ErrTelegramIDRequired)
       else if snd (ParseInt idValue) \<noteq> None \<or> userID \<le> 0
         then (zeroAuthData, Some (Errorf ErrTelegramIDInvalid idValue))
       else if authDateValue = [] then (zeroAuthData, Some ErrTelegramAuthDateRequired)
       else if snd (ParseInt authDateValue) \<noteq> None
         then (zeroAuthData, Some (Errorf ErrTelegramAuthDateInvalid authDateValue))
       else if After (Unix authDateUnix 0) (Add now (effectiveSkew config))
         then (zeroAuthData, Some ErrTelegramAuthDateFuture)
       else if Sub now (Unix authDateUnix 0) > effectiveTTL config
         then (zeroAuthData, Some ErrTelegramAuthDateExpired)
       else
         (\<lparr>UserID = userID,
           Username = index query ''username'',
           FirstName = index query ''first_name'',
           LastName = index query ''last_name'',
           PhotoURL = index query ''photo_url'',
           AuthDateUnix = authDateUnix\<rparr>, None))"

text \<open>The checks of the verification in their order, each with the error of its
  failure. A check after the first failing one is never reached by the program; in this
  list it is simply not looked at.\<close>

definition checks :: "Time \<Rightarrow> query \<Rightarrow> string \<Rightarrow> VerifyConfig \<Rightarrow> error option list" where
  "checks wall query botToken config =
    (let hash = TrimSpace (index query ''hash'');
         idValue = TrimSpace (index query ''id'');
         authDateValue = TrimSpace (index query ''auth_date'');
         authDate = Unix (fst (ParseInt authDateValue)) 0;
         now = clockReading wall config
     in
      [if TrimSpace botToken = [] then Some ErrBotTokenRequired else None,
       if hash = [] then Some ErrTelegramHashRequired else None,
       verifyHash query (TrimSpace botToken) hash,
       if idValue = [] then Some ErrTelegramIDRequired else None,
       if snd (ParseInt idValue) \<noteq> None \<or> fst (ParseInt idValue) \<le> 0
         then Some (Errorf ErrTelegramIDInvalid idValue) else None,
       if authDateValue = [] then Some ErrTelegramAuthDateRequired else None,
       if snd (ParseInt authDateValue) \<noteq> None
         then Some (Errorf ErrTelegramAuthDateInvalid authDateValue) else None,
       if After authDate (Add now (effectiveSkew config))
         then Some ErrTelegramAuthDateFuture else None,
       if Sub now authDate > effectiveTTL config
         then Some ErrTelegramAuthDateExpired else None])"

definition firstFailure :: "error option list \<Rightarrow> error option" where
  "firstFailure cs = (case find (\<lambda>c. c \<noteq> None) cs of None \<Rightarrow> None | Some c \<Rightarrow> c)"

text \<open>Base-10 notation of a signed 64-bit integer: an optional sign, then one or more
  decimal digits, denoting a number in \<open>[-2^63, 2^63)\<close>.\<close>

definition isDigit :: "char \<Rightarrow> bool" where
  "isDigit c = (CHR ''0'' \<le> c \<and> c \<le> CHR ''9'')"

definition decimal :: "string \<Rightarrow> int" where
  "decimal ds = foldl (\<lambda>n c. 10 * n + (of_char c - 48)) 0 ds"

definition denotes :: "string \<Rightarrow> int \<Rightarrow> bool" where
  "denotes s n =
     (s \<noteq> [] \<and>
      (let ds = (if hd s = CHR ''+'' \<or> hd s = CHR ''-'' then tl s else s) in
       ds \<noteq> [] \<and> list_all isDigit ds \<and>
       n = (if hd s = CHR ''-'' then - decimal ds else decimal ds) \<and> int64 n))"

text \<open>The flattening of the specification: each key with the first of its values, the
  empty string for a key with no value.\<close>

definition flatten :: "Values \<Rightarrow> query" where
  "flatten values = map (\<lambda>(key, vs). (key, case vs of [] \<Rightarrow> [] | v # _ \<Rightarrow> v)) values"

text \<open>The instant of a clock reading, in nanoseconds since the Unix epoch, as a
  mathematical integer; a clock reading that is well formed and within \<open>2^62\<close> seconds
  of the epoch; and the freshness window \<open>[now - maxAge, now + maxSkew]\<close> for a
  timestamp in seconds.\<close>

definition unixNano :: "Time \<Rightarrow> int" where
  "unixNano t = (sec t - unixToInternal) * 1000000000 + nsec t"

definition saneClock :: "Time \<Rightarrow> bool" where
  "saneClock t = (0 \<le> nsec t \<and> nsec t < 1000000000 \<and> \<bar>sec t - unixToInternal\<bar> \<le> 2 ^ 62)"

definition inWindow :: "Time \<Rightarrow> VerifyConfig \<Rightarrow> int \<Rightarrow> bool" where
  "inWindow now config ts =
     (unixNano now - effectiveTTL config \<le> ts * 1000000000 \<and>
      ts * 1000000000 \<le> unixNano now + effectiveSkew config)"

text \<open>A policy within the range where durations and clock readings are exact: the
  clock reading is sane, the configured durations are \<open>int64\<close> values, and the maximum
  age in effect is below the largest duration, \<open>2^63 - 1\<close> nanoseconds.\<close>

definition boundedPolicy :: "Time \<Rightarrow> VerifyConfig \<Rightarrow> bool" where
  "boundedPolicy wall config =
     (saneClock (clockReading wall config) \<and> int64 (AuthTTL config) \<and>
      int64 (ClockSkew config) \<and> effectiveTTL config < maxDuration)"

text \<open>An input that is valid but for its freshness: every check before the two
  freshness checks passes.\<close>

definition otherwiseValid :: "query \<Rightarrow> string \<Rightarrow> bool" where
  "otherwiseValid query botToken =
     (TrimSpace botToken \<noteq> [] \<and> TrimSpace (index query ''hash'') \<noteq> [] \<and>
      verifyHash query (TrimSpace botToken) (TrimSpace (index query ''hash'')) = None \<and>
      TrimSpace (index query ''id'') \<noteq> [] \<and>
      snd (ParseInt (TrimSpace (index query ''id''))) = None \<and>
      0 < fst (ParseInt (TrimSpace (index query ''id''))) \<and>
      TrimSpace (index query ''auth_date'') \<noteq> [] \<and>
      snd (ParseInt (TrimSpace (index query ''auth_date''))) = None)"

section \<open>Facts about the library functions\<close>

subsection \<open>White space\<close>

lemma runes_prefix_free:
  "\<forall>e\<in>set spaceRunes. \<forall>p\<in>set spaceRunes. (take (length p) e = p \<or> take (length e) p = e) \<longrightarrow> p = e"
  by code_simp

lemma runes_suffix_free:
  "\<forall>e\<in>set spaceRunes. \<forall>p\<in>set spaceRunes.
     (take (length p) (rev e) = rev p \<or> take (length e) (rev p) = rev e) \<longrightarrow> p = e"
  by code_simp

lemma HasPrefix_append:
  assumes "HasPrefix (e @ s) p"
  shows "take (length p) e = p \<or> take (length e) p = e"
proof (cases "length p \<le> length e")
  case True
  with assms show ?thesis by (simp add: HasPrefix_def)
next
  case False
  from assms have "take (length e) p = take (length e) (take (length p) (e @ s))"
    by (simp add: HasPrefix_def)
  also have "\<dots> = e" using False by (simp add: min_def)
  finally show ?thesis by simp
qed

lemma HasPrefix_self: "HasPrefix (e @ s) e"
  by (simp add: HasPrefix_def)

lemma leadSpace_rune:
  assumes "e \<in> set spaceRunes"
  shows "leadSpace (e @ s) = Some e"
proof (cases "leadSpace (e @ s)")
  case None
  then show ?thesis
    using assms HasPrefix_self [of e s] by (auto simp: leadSpace_def find_None_iff)
next
  case (Some p)
  then have "p \<in> set spaceRunes" "HasPrefix (e @ s) p"
    by (auto simp: leadSpace_def find_Some_iff)
  with assms runes_prefix_free HasPrefix_append [of e s p] have "p = e" by blast
  with Some show ?thesis by simp
qed

lemma HasSuffix_rev: "HasSuffix s p = HasPrefix (rev s) (rev p)"
proof (cases "length p \<le> length s")
  case True
  then have "take (length p) (rev s) = rev (drop (length s - length p) s)"
    by (simp add: rev_drop)
  then show ?thesis using True by (simp add: HasSuffix_def HasPrefix_def)
next
  case False
  then have "length (take (length p) (rev s)) \<noteq> length (rev p)" by simp
  then have "take (length p) (rev s) \<noteq> rev p" by metis
  then show ?thesis using False by (simp add: HasSuffix_def HasPrefix_def)
qed

lemma trailSpace_rune:
  assumes "e \<in> set spaceRunes"
  shows "trailSpace (s @ e) = Some e"
proof (cases "trailSpace (s @ e)")
  case None
  then show ?thesis
    using assms HasPrefix_self [of "rev e" "rev s"]
    by (auto simp: trailSpace_def find_None_iff HasSuffix_rev)
next
  case (Some p)
  then have "p \<in> set spaceRunes" "HasPrefix (rev e @ rev s) (rev p)"
    by (auto simp: trailSpace_def find_Some_iff HasSuffix_rev)
  with assms runes_suffix_free HasPrefix_append [of "rev e" "rev s" "rev p"] have "p = e"
    by (metis length_rev)
  with Some show ?thesis by simp
qed

lemma TrimLeft_rune: "e \<in> set spaceRunes \<Longrightarrow> TrimLeft (e @ s) = TrimLeft s"
  by (subst TrimLeft.simps) (simp add: leadSpace_rune)

lemma TrimRight_rune: "e \<in> set spaceRunes \<Longrightarrow> TrimRight (s @ e) = TrimRight s"
  by (subst TrimRight.simps) (simp add: trailSpace_rune)

lemma TrimLeft_blank: "blank l \<Longrightarrow> TrimLeft (l @ s) = TrimLeft s"
  by (induction rule: blank.induct) (simp_all add: TrimLeft_rune)

lemma TrimRight_blank: "blank r \<Longrightarrow> TrimRight (s @ r) = TrimRight s"
proof (induction arbitrary: s rule: blank.induct)
  case blank_Nil
  then show ?case by simp
next
  case (blank_Cons e r)
  have "TrimRight (s @ e @ r) = TrimRight ((s @ e) @ r)" by simp
  also have "\<dots> = TrimRight (s @ e)" by (rule blank_Cons.IH)
  also have "\<dots> = TrimRight s" using blank_Cons.hyps(1) by (rule TrimRight_rune)
  finally show ?case .
qed

lemma leadSpace_Nil: "leadSpace [] = None"
  by (auto simp: leadSpace_def find_None_iff HasPrefix_def dest: spaceRunes_nonempty)

lemma trailSpace_Nil: "trailSpace [] = None"
  by (auto simp: trailSpace_def find_None_iff HasSuffix_def dest: spaceRunes_nonempty)

lemma TrimLeft_Nil: "TrimLeft [] = []"
  by (subst TrimLeft.simps) (simp add: leadSpace_Nil)

lemma TrimRight_Nil: "TrimRight [] = []"
  by (subst TrimRight.simps) (simp add: trailSpace_Nil)

lemma TrimSpace_blank: "blank s \<Longrightarrow> TrimSpace s = []"
  using TrimLeft_blank [of s "[]"] by (simp add: TrimSpace_def TrimLeft_Nil TrimRight_Nil)

lemma leadSpace_None:
  assumes "s \<noteq> []" "hd s \<notin> hd ` set spaceRunes"
  shows "leadSpace s = None"
proof -
  have "\<not> HasPrefix s p" if "p \<in> set spaceRunes" for p
  proof
    assume "HasPrefix s p"
    then have "take (length p) s = p" by (simp add: HasPrefix_def)
    moreover have "p \<noteq> []" using that by (rule spaceRunes_nonempty)
    ultimately have "hd p = hd s" using assms(1) by (metis hd_take length_greater_0_conv)
    with that assms(2) show False by (metis imageI)
  qed
  then show ?thesis by (simp add: leadSpace_def find_None_iff)
qed

lemma trailSpace_None:
  assumes "s \<noteq> []" "last s \<notin> last ` set spaceRunes"
  shows "trailSpace s = None"
proof -
  have "\<not> HasSuffix s p" if "p \<in> set spaceRunes" for p
  proof
    assume "HasSuffix s p"
    then have "drop (length s - length p) s = p" by (simp add: HasSuffix_def)
    moreover have "p \<noteq> []" using that by (rule spaceRunes_nonempty)
    ultimately have "last p = last s" by (metis last_drop drop_eq_Nil not_le)
    with that assms(2) show False by (metis imageI)
  qed
  then show ?thesis by (simp add: trailSpace_def find_None_iff)
qed

lemma hex_no_space_edge:
  "\<forall>c. reverseHexTable c \<le> 15 \<longrightarrow> c \<notin> hd ` set spaceRunes \<and> c \<notin> last ` set spaceRunes"
  by code_simp

lemma Decode_hex: "Decode s = (bs, None) \<Longrightarrow> c \<in> set s \<Longrightarrow> reverseHexTable c \<le> 15"
  by (induction s arbitrary: bs rule: Decode.induct)
    (auto simp: Let_def split: if_splits prod.splits)

lemma Decode_Nil: "Decode s = (bs, None) \<Longrightarrow> bs \<noteq> [] \<Longrightarrow> s \<noteq> []"
  by auto

lemma TrimSpace_hex:
  assumes "blank l" "blank r" "h \<noteq> []" "\<forall>c\<in>set h. reverseHexTable c \<le> 15"
  shows "TrimSpace (l @ h @ r) = h"
proof -
  from assms(3,4) have e: "hd h \<notin> hd ` set spaceRunes" "last h \<notin> last ` set spaceRunes"
    using hex_no_space_edge by (metis hd_in_set, metis last_in_set)
  have "leadSpace (h @ r) = None"
    using assms(3) e(1) by (intro leadSpace_None) simp_all
  then have "TrimLeft (h @ r) = h @ r" by (subst TrimLeft.simps) simp
  then have "TrimLeft (l @ h @ r) = h @ r" using assms(1) by (simp add: TrimLeft_blank)
  moreover have "TrimRight (h @ r) = TrimRight h" using assms(2) by (rule TrimRight_blank)
  moreover have "TrimRight h = h"
    using trailSpace_None [OF assms(3) e(2)] by (subst TrimRight.simps) simp
  ultimately show ?thesis by (simp add: TrimSpace_def)
qed


lemma TrimLeft_lead: "leadSpace (TrimLeft s) = None"
  by (induction s rule: TrimLeft.induct) (subst TrimLeft.simps, simp split: option.splits)

lemma TrimRight_trail: "trailSpace (TrimRight s) = None"
  by (induction s rule: TrimRight.induct) (subst TrimRight.simps, simp split: option.splits)

lemma TrimRight_take: "\<exists>n. TrimRight s = take n s"
proof (induction s rule: TrimRight.induct)
  case (1 s)
  show ?case
  proof (cases "trailSpace s")
    case None
    then have "TrimRight s = take (length s) s" by (subst TrimRight.simps) simp
    then show ?thesis by blast
  next
    case (Some e)
    then obtain n where "TrimRight (take (length s - length e) s) = take n (take (length s - length e) s)"
      using 1 by blast
    with Some have "TrimRight s = take (min n (length s - length e)) s"
      by (subst TrimRight.simps) simp
    then show ?thesis by blast
  qed
qed

lemma leadSpace_take:
  assumes "leadSpace s = None"
  shows "leadSpace (take n s) = None"
proof -
  have "\<not> HasPrefix (take n s) p" if "p \<in> set spaceRunes" for p
  proof
    assume h: "HasPrefix (take n s) p"
    then have "length (take (length p) (take n s)) = length p" by (simp add: HasPrefix_def)
    then have "length p \<le> n" by simp
    with h have "HasPrefix s p" by (simp add: HasPrefix_def min_def)
    with assms that show False by (simp add: leadSpace_def find_None_iff)
  qed
  then show ?thesis by (simp add: leadSpace_def find_None_iff)
qed

lemma TrimSpace_idem: "TrimSpace (TrimSpace s) = TrimSpace s"
proof -
  obtain n where n: "TrimRight (TrimLeft s) = take n (TrimLeft s)" using TrimRight_take by blast
  have "leadSpace (TrimSpace s) = None"
    unfolding TrimSpace_def n by (rule leadSpace_take) (rule TrimLeft_lead)
  then have "TrimLeft (TrimSpace s) = TrimSpace s" by (subst TrimLeft.simps) simp
  moreover have "trailSpace (TrimSpace s) = None" by (simp add: TrimSpace_def TrimRight_trail)
  then have "TrimRight (TrimSpace s) = TrimSpace s" by (subst TrimRight.simps) simp
  ultimately show ?thesis by (simp add: TrimSpace_def)
qed

subsection \<open>Digests and their comparison\<close>

definition primes64 :: "int list" where
  "primes64 =
    [2, 3, 5, 7, 11, 13, 17, 19, 23, 29, 31, 37, 41, 43, 47, 53, 59, 61, 67, 71, 73, 79, 83,
     89, 97, 101, 103, 107, 109, 113, 127, 131, 137, 139, 149, 151, 157, 163, 167, 173, 179,
     181, 191, 193, 197, 199, 211, 223, 227, 229, 233, 239, 241, 251, 257, 263, 269, 271, 277,
     281, 283, 293, 307, 311]"

text \<open>\<open>fracRoot r p k\<close>: \<open>k\<close> is the first 32 bits of the fractional part of the
  \<open>r\<close>-th root of \<open>p\<close>, for \<open>p < 7 ^ r\<close>.\<close>

definition fracRoot :: "nat \<Rightarrow> int \<Rightarrow> int \<Rightarrow> bool" where
  "fracRoot r p k =
     (0 \<le> k \<and> k < 2 ^ 32 \<and>
      list_ex (\<lambda>m. let n = m * 2 ^ 32 + k in n ^ r \<le> p * 2 ^ (32 * r) \<and> p * 2 ^ (32 * r) < (n + 1) ^ r)
        [1, 2, 3, 4, 5, 6])"

lemma K256_roots: "list_all2 (fracRoot 3) primes64 K256"
  by code_simp

lemma init256_roots:
  "(case init256 of (a, b, c, d, e, f, g, h) \<Rightarrow>
      list_all2 (fracRoot 2) (take 8 primes64) [a, b, c, d, e, f, g, h])"
  by code_simp

lemma Sum256_abc:
  "EncodeToString (Sum256 ''abc'') =
     ''ba7816bf8f01cfea414140de5dae2223b00361a396177a9cb410ff61f20015ad''"
  by code_simp

lemma length_putUint32: "length (putUint32 w) = 4"
  by (simp add: putUint32_def)

lemma length_Sum256: "length (Sum256 m) = 32"
  by (simp add: Sum256_def length_putUint32 split: prod.splits)

lemma length_HMAC_SHA256: "length (HMAC_SHA256 key msg) = 32"
  by (simp add: HMAC_SHA256_def Let_def length_Sum256)

lemma xor_char_0: "(of_char a :: int) XOR of_char b = 0 \<longleftrightarrow> a = b"
proof
  assume h: "(of_char a :: int) XOR of_char b = 0"
  have "(of_char a :: int) = (of_char a XOR of_char b) XOR of_char b"
    by (simp add: xor.assoc)
  also have "\<dots> = of_char b" by (simp add: h)
  finally show "a = b" by simp
qed simp

lemma foldl_or_zero:
  "foldl (\<lambda>v (a, b). v OR (of_char a XOR of_char b)) (v0::int) ps = 0
     \<longleftrightarrow> v0 = 0 \<and> (\<forall>(a, b)\<in>set ps. a = b)"
  by (induction ps arbitrary: v0) (auto simp: or_eq_0_iff xor_char_0)

lemma Equal_iff: "Equal x y \<longleftrightarrow> x = y"
proof (cases "length x = length y")
  case True
  then have "(\<forall>(a, b)\<in>set (zip x y). a = b) \<longleftrightarrow> x = y"
    by (induction x y rule: list_induct2) auto
  with True show ?thesis
    by (simp add: Equal_def ConstantTimeCompare_def Let_def foldl_or_zero)
next
  case False
  then show ?thesis by (auto simp: Equal_def ConstantTimeCompare_def)
qed

section \<open>The verification as a chain of checks\<close>

text \<open>The nested conditionals of \<open>VerifyWithConfig\<close>, flattened: each check is reached
  only when all checks before it have passed.\<close>

lemma VerifyWithConfig_unfold:
  "VerifyWithConfig wall query tok config =
    (let hash = TrimSpace (index query ''hash'');
         idValue = TrimSpace (index query ''id'');
         authDateValue = TrimSpace (index query ''auth_date'');
         userID = fst (ParseInt idValue);
         authDateUnix = fst (ParseInt authDateValue);
         now = clockReading wall config
     in
       if TrimSpace tok = [] then (zeroAuthData, Some ErrBotTokenRequired)
       else if hash = [] then (zeroAuthData, Some ErrTelegramHashRequired)
       else if verifyHash query (TrimSpace tok) hash \<noteq> None
         then (zeroAuthData, verifyHash query (TrimSpace tok) hash)
       else if idValue = [] then (zeroAuthData, Some ErrTelegramIDRequired)
       else if snd (ParseInt idValue) \<noteq> None \<or> userID \<le> 0
         then (zeroAuthData, Some (Errorf ErrTelegramIDInvalid idValue))
       else if authDateValue = [] then (zeroAuthData, Some ErrTelegramAuthDateRequired)
       else if snd (ParseInt authDateValue) \<noteq> None
         then (zeroAuthData, Some (Errorf ErrTelegramAuthDateInvalid authDateValue))
       else if After (Unix authDateUnix 0) (Add now (effectiveSkew config))
         then (zeroAuthData, Some ErrTelegramAuthDateFuture)
       else if Sub now (Unix authDateUnix 0) > effectiveTTL config
         then (zeroAuthData, Some ErrTelegramAuthDateExpired)
       else
         (\<lparr>UserID = userID,
           Username = index query ''username'',
           FirstName = index query ''first_name'',
           LastName = index query ''last_name'',
           PhotoURL = index query ''photo_url'',
           AuthDateUnix = authDateUnix\<rparr>, None))"
proof -
  obtain u1 e1 where p1: "ParseInt (TrimSpace (index query ''id'')) = (u1, e1)"
    by (cases "ParseInt (TrimSpace (index query ''id''))")
  obtain u2 e2 where p2: "ParseInt (TrimSpace (index query ''auth_date'')) = (u2, e2)"
    by (cases "ParseInt (TrimSpace (index query ''auth_date''))")
  show ?thesis
    unfolding VerifyWithConfig_def Let_def effectiveTTL_def effectiveSkew_def clockReading_def p1 p2
    by (cases "verifyHash query (TrimSpace tok) (TrimSpace (index query ''hash''))";
        cases e1; cases e2; cases "Now config"; simp)
qed

lemma VerifyWithConfig_stages:
  "VerifyWithConfig wall query tok config =
     (if TrimSpace tok = [] then (zeroAuthData, Some ErrBotTokenRequired)
      else if TrimSpace (index query ''hash'') = [] then (zeroAuthData, Some ErrTelegramHashRequired)
      else if verifyHash query (TrimSpace tok) (TrimSpace (index query ''hash'')) \<noteq> None
        then (zeroAuthData, verifyHash query (TrimSpace tok) (TrimSpace (index query ''hash'')))
      else fieldValidator wall query config)"
  by (simp add: VerifyWithConfig_unfold fieldValidator_def Let_def)

subsection \<open>The signature verifier\<close>

lemma foldl_dataCheckPairs:
  "foldl (\<lambda>pairs (key, value). if key = ''hash'' then pairs else pairs @ [key @ ''='' @ value]) acc q
     = acc @ map (\<lambda>(k, v). k @ ''='' @ v) (filter (\<lambda>(k, v). k \<noteq> ''hash'') q)"
  by (induction q arbitrary: acc) auto

lemma dataCheckPairs_eq:
  "dataCheckPairs q = map (\<lambda>(k, v). k @ ''='' @ v) (filter (\<lambda>(k, v). k \<noteq> ''hash'') q)"
  by (simp add: dataCheckPairs_def foldl_dataCheckPairs)

lemma Join_joinLines: "Join xs [CHR 0x0A] = joinLines xs"
  by (induction xs rule: joinLines.induct) simp_all

lemma dataCheckString_canonical: "dataCheckString q = canonicalCheckString q"
  by (simp add: dataCheckString_def canonicalCheckString_def Strings_def dataCheckPairs_eq Join_joinLines)

text \<open>The order in which the loop visits the entries does not matter.\<close>
lemma dataCheckString_order:
  assumes "mset q = mset q'"
  shows "dataCheckString q = dataCheckString q'"
proof -
  have m: "mset (dataCheckPairs q') = mset (dataCheckPairs q)"
    using assms by (simp add: dataCheckPairs_eq)
  have "sort (dataCheckPairs q) = sort (dataCheckPairs q')"
    by (rule properties_for_sort) (simp_all add: m)
  then show ?thesis by (simp add: dataCheckString_def Strings_def)
qed

lemma verifyHash_iff:
  "verifyHash query botToken expectedHash = None \<longleftrightarrow>
     DecodeString (TrimSpace expectedHash)
       = (HMAC_SHA256 (Sum256 botToken) (dataCheckString query), None)"
proof -
  obtain bs err where d: "DecodeString (TrimSpace expectedHash) = (bs, err)"
    by (cases "DecodeString (TrimSpace expectedHash)")
  show ?thesis
    by (cases err) (auto simp: verifyHash_def d Let_def Equal_iff)
qed

lemma verifyHash_cases:
  "verifyHash query botToken expectedHash = None \<or>
   verifyHash query botToken expectedHash = Some ErrTelegramHashInvalid"
proof -
  obtain bs err where d: "DecodeString (TrimSpace expectedHash) = (bs, err)"
    by (cases "DecodeString (TrimSpace expectedHash)")
  show ?thesis
    by (cases err) (simp_all add: verifyHash_def d Let_def)
qed

subsection \<open>A signed example\<close>

text \<open>A callback signed with the token \<open>test-token\<close>.\<close>

definition exampleHash :: string where
  "exampleHash = ''0b3248fed9e3ef633692c594475fe893804aed0fd488f1ad2037ec62c4237e96''"

definition exampleQuery :: query where
  "exampleQuery =
     [(''id'', ''42''), (''username'', ''jd''), (''auth_date'', ''1800000000''),
      (''hash'', exampleHash)]"

lemma example_check_string:
  "canonicalCheckString exampleQuery = ''auth_date=1800000000'' @ [CHR 0x0A] @ ''id=42'' @ [CHR 0x0A] @ ''username=jd''"
  by code_simp

lemma example_digest:
  "DecodeString exampleHash
     = (HMAC_SHA256 (Sum256 ''test-token'')
          (''auth_date=1800000000'' @ [CHR 0x0A] @ ''id=42'' @ [CHR 0x0A] @ ''username=jd''), None)"
  by code_simp

lemma example_trim:
  "TrimSpace ''test-token'' = ''test-token''"
  "TrimSpace exampleHash = exampleHash"
  "index exampleQuery ''hash'' = exampleHash"
  by code_simp+

lemma verifyHash_wrong_length:
  assumes "length (fst (DecodeString (TrimSpace expectedHash))) \<noteq> 32"
  shows "verifyHash query botToken expectedHash = Some ErrTelegramHashInvalid"
proof -
  have "fst (DecodeString (TrimSpace expectedHash)) \<noteq> HMAC_SHA256 (Sum256 botToken) (dataCheckString query)"
    using assms length_HMAC_SHA256 by metis
  then have "verifyHash query botToken expectedHash \<noteq> None"
    by (auto simp: verifyHash_iff)
  with verifyHash_cases [of query botToken expectedHash] show ?thesis by simp
qed

lemma example_verifyHash: "verifyHash exampleQuery ''test-token'' exampleHash = None"
  by (simp add: verifyHash_iff dataCheckString_canonical example_trim example_check_string
      example_digest)

lemma example_hash_nonempty: "exampleHash \<noteq> []"
  by (simp add: exampleHash_def)

lemma example_stage:
  "VerifyWithConfig wall exampleQuery ''test-token'' config = fieldValidator wall exampleQuery config"
  by (simp add: VerifyWithConfig_stages example_trim example_verifyHash example_hash_nonempty)

lemma example_fields:
  "fieldValidator (Unix 1800000100 0) exampleQuery zeroVerifyConfig
     = (\<lparr>UserID = 42, Username = ''jd'', FirstName = [], LastName = [], PhotoURL = [],
         AuthDateUnix = 1800000000\<rparr>, None)"
  by code_simp

lemma int64_w64: "int64 (w64 x)"
  by (simp add: int64_def w64_def)

lemma ParseInt_int64: "ParseInt s = (n, None) \<Longrightarrow> int64 n"
  by (auto simp: ParseInt_def Let_def int64_w64 split: if_splits prod.splits)

lemma index_absent: "k \<notin> fst ` set m \<Longrightarrow> index m k = []"
proof -
  assume "k \<notin> fst ` set m"
  then have "map_of m k = None" by (simp add: map_of_eq_None_iff)
  then show ?thesis by (simp add: index_def)
qed

lemma index_assign: "index (assign m k v) k' = (if k' = k then v else index m k')"
  by (induction m) (auto simp: index_def)

lemma canonical_assign_hash: "canonicalCheckString (assign m ''hash'' v) = canonicalCheckString m"
proof -
  have "filter (\<lambda>(k, v). k \<noteq> ''hash'') (assign m ''hash'' v) = filter (\<lambda>(k, v). k \<noteq> ''hash'') m"
    by (induction m) auto
  then show ?thesis by (simp add: canonicalCheckString_def)
qed

lemma fieldValidator_assign_hash:
  "fieldValidator wall (assign m ''hash'' v) config = fieldValidator wall m config"
  by (simp add: fieldValidator_def Let_def index_assign)

lemma DecodeString_nonempty:
  assumes "DecodeString h = (bs, None)" "bs \<noteq> []"
  shows "h \<noteq> [] \<and> (\<forall>c\<in>set h. reverseHexTable c \<le> 15)"
  using assms Decode_hex [of h bs] by (auto simp: DecodeString_def)

lemma HMAC_nonempty: "HMAC_SHA256 key msg \<noteq> []"
  using length_HMAC_SHA256 [of key msg] by auto

subsection \<open>Parsing integers\<close>

lemma digit_range:
  assumes "isDigit c"
  shows "0 \<le> (of_char c :: int) - 48 \<and> (of_char c :: int) - 48 \<le> 9"
proof -
  have "(of_char c :: int) = int (of_char c)" by (simp only: of_nat_of_char)
  moreover have "48 \<le> (of_char c :: nat) \<and> (of_char c :: nat) \<le> 57"
    using assms by (simp add: isDigit_def less_eq_char_def)
  ultimately show ?thesis by linarith
qed

lemma foldl_digits_mono:
  "list_all isDigit cs \<Longrightarrow> 0 \<le> n \<Longrightarrow> (n::int) \<le> foldl (\<lambda>n c. 10 * n + (of_char c - 48)) n cs"
proof (induction cs arbitrary: n)
  case Nil
  then show ?case by simp
next
  case (Cons c cs)
  then have d: "0 \<le> (of_char c :: int) - 48" using digit_range by simp
  with Cons.prems have "n \<le> 10 * n + (of_char c - 48)" by simp
  moreover have "10 * n + (of_char c - 48) \<le> foldl (\<lambda>n c. 10 * n + (of_char c - 48)) (10 * n + (of_char c - 48)) cs"
    using Cons.prems d by (intro Cons.IH) simp_all
  ultimately show ?case by simp
qed

lemma parseDigits_iff:
  assumes "0 \<le> n" "n < 2 ^ 64"
  shows "parseDigits n cs = (m, None) \<longleftrightarrow>
           list_all isDigit cs \<and> m = foldl (\<lambda>n c. 10 * n + (of_char c - 48)) n cs \<and> m < 2 ^ 64"
  using assms
proof (induction cs arbitrary: n)
  case Nil
  then show ?case by auto
next
  case (Cons c cs)
  let ?d = "(of_char c :: int) - 48"
  let ?n1 = "10 * n + ?d"
  show ?case
  proof (cases "isDigit c")
    case False
    then show ?thesis by (auto simp: isDigit_def)
  next
    case True
    then have d: "0 \<le> ?d" "?d \<le> 9" using digit_range by simp_all
    have c48: "(of_char CHR ''0'' :: int) = 48" by simp
    show ?thesis
    proof (cases "?n1 < 2 ^ 64")
      case small: True
      then have lt: "n < maxUint64 div 10 + 1" using d Cons.prems by (simp add: maxUint64_def)
      have m: "(n * 10 + ?d) mod 2 ^ 64 = ?n1" using small d Cons.prems by (simp add: mult.commute)
      have "parseDigits n (c # cs) = parseDigits ?n1 cs"
        using True lt m small d by (simp add: isDigit_def Let_def c48 maxUint64_def)
      moreover have "0 \<le> ?n1" using d Cons.prems by simp
      ultimately show ?thesis using Cons.IH [of ?n1] small True by simp
    next
      case big: False
      have "snd (parseDigits n (c # cs)) = Some ErrRange"
      proof (cases "n < maxUint64 div 10 + 1")
        case False
        then show ?thesis using True by (simp add: isDigit_def Let_def)
      next
        case lt: True
        then have n10: "n * 10 < 2 ^ 64" by (simp add: maxUint64_def)
        from big have ge: "n * 10 + ?d \<ge> 2 ^ 64" by (simp add: mult.commute)
        define x where "x = n * 10 + ?d"
        have x: "2 ^ 64 \<le> x" "x - 2 ^ 64 < 2 ^ 64" using n10 d ge by (simp_all add: x_def)
        have "x mod 2 ^ 64 = (x - 2 ^ 64) mod 2 ^ 64" by (simp only: minus_mod_self2)
        also have "\<dots> = x - 2 ^ 64" using x by (intro mod_pos_pos_trivial) simp_all
        finally have "(n * 10 + ?d) mod 2 ^ 64 = n * 10 + ?d - 2 ^ 64" by (simp add: x_def)
        then have "(n * 10 + ?d) mod 2 ^ 64 < n * 10" using d by simp
        then show ?thesis using True lt by (simp add: isDigit_def Let_def c48)
      qed
      moreover have "\<not> foldl (\<lambda>n c. 10 * n + (of_char c - 48)) ?n1 cs < 2 ^ 64"
        if "list_all isDigit cs"
      proof -
        have "?n1 \<le> foldl (\<lambda>n c. 10 * n + (of_char c - 48)) ?n1 cs"
          using that d Cons.prems by (intro foldl_digits_mono) simp_all
        with big show ?thesis by simp
      qed
      ultimately show ?thesis using True by auto
    qed
  qed
qed

lemma parseDigits_ErrRange: "parseDigits n cs = (m, Some ErrRange) \<Longrightarrow> m = maxUint64"
  by (induction cs arbitrary: n) (auto simp: Let_def split: if_splits)

lemma decimal_nonneg: "list_all isDigit ds \<Longrightarrow> 0 \<le> decimal ds"
  unfolding decimal_def by (rule foldl_digits_mono) simp_all

lemma w64_id: "int64 x \<Longrightarrow> w64 x = x"
  by (simp add: w64_def int64_def mod_pos_pos_trivial)

lemma ParseUint_iff:
  "ParseUint ds = (m, None) \<longleftrightarrow> ds \<noteq> [] \<and> list_all isDigit ds \<and> m = decimal ds \<and> m < 2 ^ 64"
  using parseDigits_iff [of 0 ds m] by (simp add: ParseUint_def decimal_def)

lemma ParseUint_ErrRange: "ParseUint ds = (m, Some ErrRange) \<Longrightarrow> m = maxUint64"
  by (auto simp: ParseUint_def parseDigits_ErrRange split: if_splits)

lemma ParseInt_iff: "ParseInt s = (n, None) \<longleftrightarrow> denotes s n"
proof (cases "s = []")
  case True
  then show ?thesis by (simp add: ParseInt_def denotes_def)
next
  case ne: False
  define ds where "ds = (if hd s = CHR ''+'' \<or> hd s = CHR ''-'' then tl s else s)"
  define neg where "neg = (hd s = CHR ''-'')"
  obtain un err where u: "ParseUint ds = (un, err)" by (cases "ParseUint ds")
  have P: "ParseInt s =
      (if err \<noteq> None \<and> err \<noteq> Some ErrRange then (0, err)
       else if \<not> neg \<and> un \<ge> 2 ^ 63 then (2 ^ 63 - 1, Some ErrRange)
       else if neg \<and> un > 2 ^ 63 then (- (2 ^ 63), Some ErrRange)
       else (if neg then w64 (- w64 un) else w64 un, None))"
    using ne u by (simp add: ParseInt_def Let_def ds_def neg_def)
  have D: "denotes s n \<longleftrightarrow>
      ds \<noteq> [] \<and> list_all isDigit ds \<and> n = (if neg then - decimal ds else decimal ds) \<and> int64 n"
    using ne by (simp add: denotes_def Let_def ds_def neg_def)
  show ?thesis
  proof (cases err)
    case (Some e)
    have "\<not> (ds \<noteq> [] \<and> list_all isDigit ds \<and> decimal ds < 2 ^ 64)"
      using ParseUint_iff [of ds "decimal ds"] u Some by auto
    moreover have "decimal ds < 2 ^ 64" if "int64 n" "n = (if neg then - decimal ds else decimal ds)"
      using that by (auto simp: int64_def split: if_splits)
    ultimately have nd: "\<not> denotes s n" using D by blast
    have "snd (ParseInt s) \<noteq> None"
    proof (cases e)
      case ErrSyntax
      then show ?thesis using P Some by simp
    next
      case ErrRange
      then have "un = maxUint64" using u Some ParseUint_ErrRange by simp
      then show ?thesis using P by (simp add: maxUint64_def)
    qed
    then have "ParseInt s \<noteq> (n, None)" by auto
    with nd show ?thesis by simp
  next
    case None
    then have un: "ds \<noteq> []" "list_all isDigit ds" "un = decimal ds" "un < 2 ^ 64"
      using u ParseUint_iff [of ds un] by simp_all
    have nn: "0 \<le> un" using un decimal_nonneg by simp
    show ?thesis
    proof (cases neg)
      case pos: False
      show ?thesis
      proof (cases "un \<ge> 2 ^ 63")
        case True
        then show ?thesis using P D None pos un by (auto simp: int64_def)
      next
        case False
        then have "w64 un = un" using nn by (intro w64_id) (simp add: int64_def)
        then show ?thesis using P D None pos un False nn by (auto simp: int64_def)
      qed
    next
      case ng: True
      show ?thesis
      proof (cases "un > 2 ^ 63")
        case True
        then show ?thesis using P D None ng un by (auto simp: int64_def)
      next
        case False
        have "w64 (- w64 un) = - un"
        proof (cases "un = 2 ^ 63")
          case True
          then show ?thesis by (simp add: w64_def)
        next
          case lt: False
          with False nn have "int64 un" "int64 (- un)" by (simp_all add: int64_def)
          then show ?thesis by (simp add: w64_id)
        qed
        then show ?thesis using P D None ng un False nn by (auto simp: int64_def)
      qed
    qed
  qed
qed

subsection \<open>A signed example with an identifier out of range\<close>

definition zeroIdHash :: string where
  "zeroIdHash = ''9e10ee2946b6d944568c0806c43b216c1ad6ce896d5febfc6691761e20b8d7cc''"

definition zeroIdQuery :: query where
  "zeroIdQuery = [(''auth_date'', ''1800000000''), (''hash'', zeroIdHash), (''id'', ''0'')]"

lemma zeroId_check_string:
  "canonicalCheckString zeroIdQuery = ''auth_date=1800000000'' @ [CHR 0x0A] @ ''id=0''"
  by code_simp

lemma zeroId_digest:
  "DecodeString zeroIdHash
     = (HMAC_SHA256 (Sum256 ''test-token'') (''auth_date=1800000000'' @ [CHR 0x0A] @ ''id=0''), None)"
  by code_simp

lemma zeroId_trim:
  "TrimSpace zeroIdHash = zeroIdHash"
  "index zeroIdQuery ''hash'' = zeroIdHash"
  "TrimSpace (index zeroIdQuery ''id'') = ''0''"
  "zeroIdHash \<noteq> []"
  by code_simp+

lemma zeroId_verifyHash: "verifyHash zeroIdQuery ''test-token'' zeroIdHash = None"
  by (simp add: verifyHash_iff dataCheckString_canonical zeroId_trim zeroId_check_string
      zeroId_digest)

subsection \<open>The adapter\<close>

lemma assign_fresh: "k \<notin> fst ` set m \<Longrightarrow> assign m k v = m @ [(k, v)]"
  by (induction m) auto

lemma foldl_assign:
  assumes "distinct (map fst acc @ map fst xs)"
  shows "foldl (\<lambda>query (key, _). assign query key (g key)) acc xs
           = acc @ map (\<lambda>(key, _). (key, g key)) xs"
  using assms
proof (induction xs arbitrary: acc)
  case Nil
  then show ?case by simp
next
  case (Cons x xs)
  obtain k vs where x: "x = (k, vs)" by (cases x)
  from Cons.prems have fresh: "k \<notin> fst ` set acc" by (auto simp: x)
  have d: "distinct (map fst (acc @ [(k, g k)]) @ map fst xs)"
    using Cons.prems by (auto simp: x)
  show ?case
    using Cons.IH [OF d] by (simp add: x assign_fresh [OF fresh])
qed

lemma Get_entry:
  assumes "distinct (map fst values)" "(key, vs) \<in> set values"
  shows "Get values key = (case vs of [] \<Rightarrow> [] | v # _ \<Rightarrow> v)"
proof -
  have "map_of values key = Some vs" using assms by simp
  then show ?thesis by (cases vs) (simp_all add: Get_def)
qed

lemma flatten_loop:
  assumes "distinct (map fst values)"
  shows "foldl (\<lambda>query (key, _). assign query key (Get values key)) [] values = flatten values"
proof -
  have "foldl (\<lambda>query (key, _). assign query key (Get values key)) [] values
          = map (\<lambda>(key, _). (key, Get values key)) values"
    using foldl_assign [of "[]" "values" "Get values"] assms by simp
  also have "\<dots> = flatten values"
    unfolding flatten_def using Get_entry [OF assms] by (intro map_cong) auto
  finally show ?thesis .
qed

lemma index_flatten:
  "map_of values key = Some (v # rest) \<Longrightarrow> index (flatten values) key = v"
  by (induction "values") (auto simp: flatten_def index_def)

lemma success_UserID:
  "snd (VerifyWithConfig wall query botToken config) = None \<Longrightarrow>
   UserID (fst (VerifyWithConfig wall query botToken config))
     = fst (ParseInt (TrimSpace (index query ''id'')))"
  by (simp add: VerifyWithConfig_unfold Let_def split: if_splits)

lemma Is_simps:
  "Is ErrTelegramAuthDateRequired ErrTelegramIDInvalid = False"
  "Is (Errorf ErrTelegramAuthDateInvalid s) ErrTelegramIDInvalid = False"
  "Is ErrTelegramAuthDateFuture ErrTelegramIDInvalid = False"
  "Is ErrTelegramAuthDateExpired ErrTelegramIDInvalid = False"
  "Is ErrTelegramAuthDateRequired ErrTelegramIDRequired = False"
  "Is (Errorf ErrTelegramAuthDateInvalid s) ErrTelegramIDRequired = False"
  "Is ErrTelegramAuthDateFuture ErrTelegramIDRequired = False"
  "Is ErrTelegramAuthDateExpired ErrTelegramIDRequired = False"
  "Is (Errorf ErrTelegramIDInvalid s) ErrTelegramIDInvalid = True"
  by simp_all

lemma example_values:
  "TrimSpace ''42'' = ''42''" "ParseInt ''42'' = (42, None)"
  "ParseInt ''0'' = (0, None)" "ParseInt ''-1'' = (- 1, None)"
  by code_simp+

subsection \<open>Times and durations\<close>

lemma unixToInternal_val: "unixToInternal = 62135596800"
  by (simp add: unixToInternal_def)

lemma w64_cong: "x mod 2 ^ 64 = y mod 2 ^ 64 \<Longrightarrow> w64 x = w64 y"
  by (simp add: w64_def mod_add_cong)

lemma w64_mod: "w64 x mod 2 ^ 64 = x mod 2 ^ 64"
proof -
  have "w64 x = (x + 2 ^ 63) mod 2 ^ 64 - 2 ^ 63" by (simp add: w64_def)
  then have "w64 x mod 2 ^ 64 = ((x + 2 ^ 63) mod 2 ^ 64 - 2 ^ 63) mod 2 ^ 64" by simp
  also have "\<dots> = (x + 2 ^ 63 - 2 ^ 63) mod 2 ^ 64" by (rule mod_diff_left_eq)
  finally show ?thesis by simp
qed

lemma w64_mult: "w64 (w64 x * k) = w64 (x * k)"
  by (rule w64_cong) (metis mod_mult_left_eq w64_mod)

lemma w64_add: "w64 (w64 x + y) = w64 (x + y)"
  by (rule w64_cong) (metis mod_add_left_eq w64_mod)

lemma w64_eq_small:
  assumes "w64 x = y" "\<bar>x - y\<bar> < 2 ^ 64"
  shows "x = y"
proof -
  have "x mod 2 ^ 64 = y mod 2 ^ 64" using assms(1) w64_mod by metis
  then have "(x - y) mod 2 ^ 64 = 0" by (simp add: mod_eq_dvd_iff mod_0_imp_dvd dvd_eq_mod_eq_0)
  then obtain k where k: "x - y = 2 ^ 64 * k" by (auto simp: mod_eq_0_iff_dvd)
  with assms(2) have "\<bar>k\<bar> * 2 ^ 64 < 1 * 2 ^ 64" by (simp add: abs_mult)
  then have "k = 0" by simp
  with k show ?thesis by simp
qed

lemma quot_rem_floor:
  assumes "0 < b"
  shows "(if rem d b < 0 then (quot d b - 1, rem d b + b) else (quot d b, rem d b))
           = (d div b, d mod b)"
proof (cases "0 \<le> d")
  case True
  then have "quot d b = d div b" "rem d b = d mod b"
    using assms by (auto simp: quot_def rem_def sgn_if)
  moreover have "\<not> d mod b < 0" using assms by (simp add: not_less)
  ultimately show ?thesis by simp
next
  case False
  then have q: "quot d b = - ((- d) div b)" "rem d b = - ((- d) mod b)"
    using assms by (auto simp: quot_def rem_def sgn_if)
  show ?thesis
  proof (cases "(- d) mod b = 0")
    case True
    then have "b dvd d" by (simp add: mod_eq_0_iff_dvd)
    then show ?thesis using q True by (auto simp: zdiv_zminus1_eq_if dvd_eq_mod_eq_0)
  next
    case nz: False
    have "0 \<le> (- d) mod b" using assms by simp
    with nz have neg: "rem d b < 0" using q by simp
    have "(- (- d)) div b = - ((- d) div b) - 1"
      using nz assms by (subst zdiv_zminus1_eq_if) simp_all
    moreover have "(- (- d)) mod b = b - (- d) mod b"
      using nz by (subst zmod_zminus1_eq_if) simp
    ultimately have "d div b = - ((- d) div b) - 1" "d mod b = b - (- d) mod b" by simp_all
    then show ?thesis using q neg by simp
  qed
qed

lemma int64_iff: "int64 x \<longleftrightarrow> - 9223372036854775808 \<le> x \<and> x < 9223372036854775808"
  by (simp add: int64_def)

lemma quot_rem_eq: "0 < b \<Longrightarrow> d = quot d b * b + rem d b"
proof -
  assume b: "0 < b"
  consider "d = 0" | "0 < d" | "d < 0" by linarith
  then show ?thesis
  proof cases
    case 1
    then show ?thesis by (simp add: quot_def rem_def)
  next
    case 2
    then show ?thesis using b by (simp add: quot_def rem_def)
  next
    case 3
    have "- d = (- d) div b * b + (- d) mod b" by simp
    then have "d = - ((- d) div b) * b - (- d) mod b" by linarith
    then show ?thesis using 3 b by (simp add: quot_def rem_def)
  qed
qed

lemma quot_bound: "int64 d \<Longrightarrow> \<bar>quot d 1000000000\<bar> \<le> 9223372036"
proof -
  assume "int64 d"
  then have "\<bar>d\<bar> \<le> 9223372036854775808" unfolding int64_iff by linarith
  then have "\<bar>d\<bar> div 1000000000 \<le> 9223372036854775808 div 1000000000" by (rule zdiv_mono1) simp
  then have "\<bar>d\<bar> div 1000000000 \<le> 9223372036" by simp
  moreover have "\<bar>quot d 1000000000\<bar> = \<bar>sgn d\<bar> * (\<bar>d\<bar> div 1000000000)"
    by (simp add: quot_def abs_mult)
  moreover have "\<bar>sgn d\<bar> * (\<bar>d\<bar> div 1000000000) \<le> \<bar>d\<bar> div 1000000000"
    by (cases "d = 0") (simp_all add: abs_sgn_eq)
  ultimately show ?thesis by linarith
qed

lemma rem_bound: "\<bar>rem d 1000000000\<bar> < 1000000000"
  by (simp add: rem_def abs_mult sgn_if)

lemma div_mod_unique:
  fixes x :: int
  assumes "x = k * b + m" "0 \<le> m" "m < b"
  shows "x div b = k \<and> x mod b = m"
  using assms by (simp add: div_pos_pos_trivial mod_pos_pos_trivial)

lemma int64_small: "\<bar>x\<bar> \<le> 9223372038 \<Longrightarrow> int64 x"
  unfolding int64_iff by linarith

lemma Add_normal:
  assumes "0 \<le> nsec t" "nsec t < 1000000000" "int64 d"
  shows "Add t d = addSec (t\<lparr>nsec := (nsec t + d) mod 1000000000\<rparr>) ((nsec t + d) div 1000000000)"
proof -
  define q where "q = quot d 1000000000"
  define r where "r = rem d 1000000000"
  have d: "d = q * 1000000000 + r" unfolding q_def r_def by (rule quot_rem_eq) simp
  have qb: "\<bar>q\<bar> \<le> 9223372036" unfolding q_def using assms(3) by (rule quot_bound)
  have rb: "\<bar>r\<bar> < 1000000000" unfolding r_def by (rule rem_bound)
  have w: "w64 (q + 1) = q + 1" "w64 (q - 1) = q - 1"
    using qb by (auto intro!: w64_id int64_small)
  consider "nsec t + r \<ge> 1000000000" | "nsec t + r < 0" | "0 \<le> nsec t + r" "nsec t + r < 1000000000"
    by linarith
  then show ?thesis
  proof cases
    case 1
    have "nsec t + d = (q + 1) * 1000000000 + (nsec t + r - 1000000000)" by (simp add: d algebra_simps)
    then have "(nsec t + d) div 1000000000 = q + 1 \<and> (nsec t + d) mod 1000000000 = nsec t + r - 1000000000"
      using 1 assms(2) rb by (intro div_mod_unique) simp_all
    then show ?thesis using 1 w by (simp add: Add_def Let_def q_def [symmetric] r_def [symmetric])
  next
    case 2
    have "nsec t + d = (q - 1) * 1000000000 + (nsec t + r + 1000000000)" by (simp add: d algebra_simps)
    then have "(nsec t + d) div 1000000000 = q - 1 \<and> (nsec t + d) mod 1000000000 = nsec t + r + 1000000000"
      using 2 assms(1) rb by (intro div_mod_unique) simp_all
    then show ?thesis using 2 w by (simp add: Add_def Let_def q_def [symmetric] r_def [symmetric])
  next
    case 3
    have "nsec t + d = q * 1000000000 + (nsec t + r)" by (simp add: d algebra_simps)
    then have "(nsec t + d) div 1000000000 = q \<and> (nsec t + d) mod 1000000000 = nsec t + r"
      using 3 by (intro div_mod_unique) simp_all
    then show ?thesis using 3 by (simp add: Add_def Let_def q_def [symmetric] r_def [symmetric])
  qed
qed

lemma addSec_exact: "int64 (sec t + x) \<Longrightarrow> addSec t x = t\<lparr>sec := sec t + x\<rparr>"
  by (auto simp: addSec_def Let_def w64_id)

lemma addSec_cases:
  "nsec (addSec t x) = nsec t \<and>
   (sec (addSec t x) = w64 (sec t + x) \<or> sec (addSec t x) = 2 ^ 63 - 1 \<or>
    sec (addSec t x) = - (2 ^ 63 - 1))"
  by (simp add: addSec_def Let_def)

lemma Add_exact:
  fixes t :: Time
  assumes "0 \<le> nsec t" "nsec t < 1000000000" "int64 d"
    and "int64 (sec t + (nsec t + d) div 1000000000)"
  shows "Add t d = \<lparr>sec = sec t + (nsec t + d) div 1000000000, nsec = (nsec t + d) mod 1000000000\<rparr>"
  using assms by (simp add: Add_normal addSec_exact)

lemma sane_bounds:
  assumes "saneClock t"
  shows "- 4611685956291791104 \<le> sec t" "sec t \<le> 4611686080562984704"
    "0 \<le> nsec t" "nsec t < 1000000000" "int64 (sec t)"
proof -
  from assms have "\<bar>sec t - 62135596800\<bar> \<le> 4611686018427387904" "0 \<le> nsec t" "nsec t < 1000000000"
    by (simp_all add: saneClock_def unixToInternal_val)
  then show "- 4611685956291791104 \<le> sec t" "sec t \<le> 4611686080562984704"
    "0 \<le> nsec t" "nsec t < 1000000000" "int64 (sec t)"
    unfolding int64_iff by linarith+
qed

lemma int64_div_bound:
  assumes "int64 d"
  shows "- 9223372037 \<le> d div 1000000000" "d div 1000000000 \<le> 9223372036"
proof -
  from assms have d: "- 9223372036854775808 \<le> d" "d \<le> 9223372036854775807"
    unfolding int64_iff by linarith+
  have "(- 9223372036854775808) div 1000000000 \<le> d div (1000000000::int)"
    using d(1) by (rule zdiv_mono1) simp
  then show "- 9223372037 \<le> d div 1000000000" by simp
  have "d div 1000000000 \<le> 9223372036854775807 div (1000000000::int)"
    using d(2) by (rule zdiv_mono1) simp
  then show "d div 1000000000 \<le> 9223372036" by simp
qed

lemma Sub_clamp:
  assumes "saneClock t" "int64 A" and D_def: "D = (sec t - A) * 1000000000 + nsec t"
  shows "Sub t \<lparr>sec = A, nsec = 0\<rparr> =
           (if D > maxDuration then maxDuration else if D < minDuration then minDuration else D)"
proof -
  define u where "u = \<lparr>sec = A, nsec = 0\<rparr>"
  define d where "d = w64 D"
  note sb = sane_bounds [OF assms(1)]
  have A: "- 9223372036854775808 \<le> A" "A < 9223372036854775808"
    using assms(2) unfolding int64_iff by simp_all
  have dd: "w64 (w64 (w64 (sec t - sec u) * Second) + (nsec t - nsec u)) = d"
    by (simp add: u_def d_def D_def Second_def w64_mult w64_add)
  have id: "int64 d" unfolding d_def by (rule int64_w64)
  have add: "Add u d = addSec (u\<lparr>nsec := d mod 1000000000\<rparr>) (d div 1000000000)"
    using Add_normal [of u d] id by (simp add: u_def)
  have S: "Sub t u = (if EqualTime (Add u d) t then d else if Before t u then minDuration else maxDuration)"
    by (simp add: Sub_def Let_def dd)
  have B: "Before t u \<longleftrightarrow> sec t < A"
    using sb(3) by (auto simp: Before_def u_def)
  show ?thesis
  proof (cases "int64 D")
    case True
    then have dD: "d = D" by (simp add: d_def w64_id)
    have "D div 1000000000 = sec t - A \<and> D mod 1000000000 = nsec t"
      using sb(3,4) by (intro div_mod_unique) (simp_all add: D_def)
    then have "Add u d = addSec (u\<lparr>nsec := nsec t\<rparr>) (sec t - A)"
      using add by (simp add: dD)
    moreover have "int64 (sec (u\<lparr>nsec := nsec t\<rparr>) + (sec t - A))" using sb(5) by (simp add: u_def)
    then have "addSec (u\<lparr>nsec := nsec t\<rparr>) (sec t - A)
                 = (u\<lparr>nsec := nsec t\<rparr>)\<lparr>sec := sec (u\<lparr>nsec := nsec t\<rparr>) + (sec t - A)\<rparr>"
      by (rule addSec_exact)
    ultimately have "Add u d = \<lparr>sec = sec t, nsec = nsec t\<rparr>"
      by (simp add: u_def)
    then have "EqualTime (Add u d) t" by (simp add: EqualTime_def)
    then have "Sub t u = D" by (simp add: S dD)
    moreover have "\<not> D > maxDuration" "\<not> D < minDuration"
      using True unfolding int64_iff by (simp_all add: maxDuration_def minDuration_def)
    ultimately show ?thesis by (simp add: u_def)
  next
    case False
    have ne: "\<not> EqualTime (Add u d) t"
    proof
      assume e: "EqualTime (Add u d) t"
      let ?v = "u\<lparr>nsec := d mod 1000000000\<rparr>"
      note ac = addSec_cases [of ?v "d div 1000000000"]
      from e have e1: "sec (Add u d) = sec t" and e2: "nsec (Add u d) = nsec t"
        by (simp_all add: EqualTime_def)
      have "nsec (Add u d) = d mod 1000000000" unfolding add using ac by simp
      with e2 have n: "d mod 1000000000 = nsec t" by simp
      have s: "sec (addSec ?v (d div 1000000000)) = sec t" using e1 unfolding add .
      have "sec t \<noteq> 2 ^ 63 - 1" "sec t \<noteq> - (2 ^ 63 - 1)" using sb(1,2) by simp_all
      with ac have "sec (addSec ?v (d div 1000000000)) = w64 (sec ?v + d div 1000000000)"
        unfolding s by blast
      then have w: "w64 (A + d div 1000000000) = sec t" unfolding s by (simp add: u_def)
      have "\<bar>A + d div 1000000000 - sec t\<bar> < 2 ^ 64"
        using A sb(1,2) int64_div_bound [OF id] by simp
      with w have "A + d div 1000000000 = sec t" by (rule w64_eq_small)
      then have "d div 1000000000 = sec t - A" by simp
      moreover have "d = d div 1000000000 * 1000000000 + d mod 1000000000" by simp
      ultimately have "d = D" using n by (simp add: D_def)
      with id False show False by simp
    qed
    from False consider "D \<ge> 9223372036854775808" | "D < - 9223372036854775808"
      unfolding int64_iff by linarith
    then show ?thesis
    proof cases
      case 1
      then have "\<not> sec t < A" using sb(4) by (simp add: D_def)
      then have "Sub t u = maxDuration" by (simp add: S ne B)
      then show ?thesis using 1 by (simp add: u_def maxDuration_def)
    next
      case 2
      then have "sec t < A" using sb(3) by (simp add: D_def)
      then have "Sub t u = minDuration" by (simp add: S ne B)
      then show ?thesis using 2 by (simp add: u_def maxDuration_def minDuration_def)
    qed
  qed
qed

lemma Unix_0: "Unix ts 0 = \<lparr>sec = w64 (ts + unixToInternal), nsec = 0\<rparr>"
  by (simp add: Unix_def)

lemma w64_Unix:
  assumes "int64 ts"
  shows "w64 (ts + unixToInternal) =
           (if ts + unixToInternal < 9223372036854775808 then ts + unixToInternal
            else ts + unixToInternal - 18446744073709551616)"
proof (cases "ts + unixToInternal < 9223372036854775808")
  case True
  then have "int64 (ts + unixToInternal)"
    using assms unfolding int64_iff unixToInternal_val by linarith
  then show ?thesis using True by (simp add: w64_id)
next
  case False
  then have "int64 (ts + unixToInternal - 18446744073709551616)"
    using assms unfolding int64_iff unixToInternal_val by linarith
  then have "w64 (ts + unixToInternal - 18446744073709551616)
               = ts + unixToInternal - 18446744073709551616" by (rule w64_id)
  moreover have "w64 (ts + unixToInternal - 18446744073709551616) = w64 (ts + unixToInternal)"
    by (rule w64_cong) simp
  ultimately show ?thesis using False by simp
qed

lemma After_Add:
  assumes "saneClock now" "int64 skew" "0 < skew"
  shows "After \<lparr>sec = A, nsec = 0\<rparr> (Add now skew)
           \<longleftrightarrow> sec now + (nsec now + skew) div 1000000000 < A"
proof -
  note sb = sane_bounds [OF assms(1)]
  have k: "skew < 9223372036854775808" using assms(2) unfolding int64_iff by simp
  have "0 div 1000000000 \<le> (nsec now + skew) div (1000000000::int)"
    using sb(3) assms(3) by (intro zdiv_mono1) simp_all
  moreover have "(nsec now + skew) div 1000000000 \<le> 9223372037854775808 div (1000000000::int)"
    using sb(4) k by (intro zdiv_mono1) simp_all
  ultimately have b: "0 \<le> (nsec now + skew) div 1000000000"
      "(nsec now + skew) div 1000000000 \<le> 9223372037" by simp_all
  then have "int64 (sec now + (nsec now + skew) div 1000000000)"
    using sb(1,2) unfolding int64_iff by linarith
  then have "Add now skew = \<lparr>sec = sec now + (nsec now + skew) div 1000000000,
                               nsec = (nsec now + skew) mod 1000000000\<rparr>"
    using sb(3,4) assms(2) by (intro Add_exact)
  moreover have "\<not> (nsec now + skew) mod 1000000000 < 0" by (simp add: not_less)
  ultimately show ?thesis by (simp add: After_def)
qed

lemma freshness:
  assumes sane: "saneClock now" and ts: "int64 ts"
    and skew: "int64 skew" "0 < skew" and ttl: "0 < ttl" "ttl < maxDuration"
  shows "After (Unix ts 0) (Add now skew) \<longleftrightarrow>
           ts + unixToInternal < 2 ^ 63 \<and> unixNano now + skew < ts * 1000000000"
    and "\<not> After (Unix ts 0) (Add now skew) \<and> \<not> Sub now (Unix ts 0) > ttl \<longleftrightarrow>
           unixNano now - ttl \<le> ts * 1000000000 \<and> ts * 1000000000 \<le> unixNano now + skew"
    and "ts * 1000000000 < unixNano now - ttl \<Longrightarrow>
           \<not> After (Unix ts 0) (Add now skew) \<and> Sub now (Unix ts 0) > ttl"
proof -
  note sb = sane_bounds [OF sane]
  define A where "A = w64 (ts + unixToInternal)"
  define S where "S = sec now + (nsec now + skew) div 1000000000"
  define m where "m = (nsec now + skew) mod 1000000000"
  define D where "D = (sec now - A) * 1000000000 + nsec now"
  have U: "Unix ts 0 = \<lparr>sec = A, nsec = 0\<rparr>" by (simp add: Unix_0 A_def)
  have iA: "int64 A" unfolding A_def by (rule int64_w64)
  have af: "After (Unix ts 0) (Add now skew) \<longleftrightarrow> S < A"
    unfolding U S_def using sane skew by (rule After_Add)
  have sub: "Sub now (Unix ts 0) =
      (if D > maxDuration then maxDuration else if D < minDuration then minDuration else D)"
    unfolding U using sane iA D_def by (rule Sub_clamp)
  have m: "0 \<le> m" "m < 1000000000" by (simp_all add: m_def)
  have "nsec now + skew = (S - sec now) * 1000000000 + m"
    by (simp add: S_def m_def)
  then have un: "unixNano now + skew = (S - 62135596800) * 1000000000 + m"
    by (simp add: unixNano_def unixToInternal_val algebra_simps)
  have SN: "sec now \<le> S"
  proof -
    have "0 div 1000000000 \<le> (nsec now + skew) div (1000000000::int)"
      using sb(3) skew(2) by (intro zdiv_mono1) simp_all
    then show ?thesis by (simp add: S_def)
  qed
  have tl: "ttl < 9223372036854775807" using ttl(2) by (simp add: maxDuration_def)
  have tsb: "- 9223372036854775808 \<le> ts" "ts < 9223372036854775808"
    using ts unfolding int64_iff by simp_all
  have sk: "skew < 9223372036854775808" using skew(1) unfolding int64_iff by simp
  have gt: "Sub now (Unix ts 0) > ttl \<longleftrightarrow> D > ttl"
    using ttl(1) tl by (auto simp: sub maxDuration_def minDuration_def)
  have key:
    "(After (Unix ts 0) (Add now skew) \<longleftrightarrow>
        ts + 62135596800 < 9223372036854775808 \<and> unixNano now + skew < ts * 1000000000) \<and>
     (\<not> After (Unix ts 0) (Add now skew) \<and> \<not> Sub now (Unix ts 0) > ttl \<longleftrightarrow>
        unixNano now - ttl \<le> ts * 1000000000 \<and> ts * 1000000000 \<le> unixNano now + skew) \<and>
     (ts * 1000000000 < unixNano now - ttl \<longrightarrow>
        \<not> After (Unix ts 0) (Add now skew) \<and> Sub now (Unix ts 0) > ttl)"
  proof (cases "ts + 62135596800 < 9223372036854775808")
    case True
    then have A: "A = ts + 62135596800"
      using w64_Unix [OF ts] by (simp add: A_def unixToInternal_val)
    have D: "D = unixNano now - ts * 1000000000"
      by (simp add: D_def A unixNano_def unixToInternal_val algebra_simps)
    have a1: "S < A \<longleftrightarrow> unixNano now + skew < ts * 1000000000"
    proof
      assume "S < A"
      then have "S + 1 \<le> ts + 62135596800" by (simp add: A)
      then have "(S + 1) * 1000000000 \<le> (ts + 62135596800) * 1000000000" by simp
      then show "unixNano now + skew < ts * 1000000000"
        unfolding un using m by (simp add: algebra_simps)
    next
      assume "unixNano now + skew < ts * 1000000000"
      then have "(S - 62135596800) * 1000000000 < ts * 1000000000"
        unfolding un using m by linarith
      then have "S - 62135596800 < ts" by simp
      then show "S < A" by (simp add: A)
    qed
    show ?thesis
      unfolding af gt a1 D using True ttl(1) skew(2) by auto
  next
    case False
    then have A: "A = ts + 62135596800 - 18446744073709551616"
      using w64_Unix [OF ts] by (simp add: A_def unixToInternal_val)
    have na: "\<not> S < A" unfolding A using SN sb(1) tsb by linarith
    have "4611686018427387905 \<le> sec now - A" unfolding A using sb(1) tsb by linarith
    then have "4611686018427387905 * 1000000000 \<le> (sec now - A) * 1000000000"
      by (rule mult_right_mono) simp
    then have "D > 9223372036854775807" unfolding D_def using sb(3) by simp
    then have big: "D > ttl" using tl by simp
    have "sec now - 62135596800 \<le> 4611686018427387904" using sb(2) by simp
    then have "(sec now - 62135596800) * 1000000000 \<le> 4611686018427387904 * 1000000000"
      by (rule mult_right_mono) simp
    moreover have "9223371974719179008 \<le> ts" using False by simp
    then have "9223371974719179008 * 1000000000 \<le> ts * 1000000000"
      by (rule mult_right_mono) simp
    ultimately have far: "unixNano now + skew < ts * 1000000000"
      unfolding unixNano_def unixToInternal_val using sb(4) sk by simp
    show ?thesis
      unfolding af gt using False na big far ttl(1) by auto
  qed
  show "After (Unix ts 0) (Add now skew) \<longleftrightarrow>
           ts + unixToInternal < 2 ^ 63 \<and> unixNano now + skew < ts * 1000000000"
    using key by (simp add: unixToInternal_val)
  show "\<not> After (Unix ts 0) (Add now skew) \<and> \<not> Sub now (Unix ts 0) > ttl \<longleftrightarrow>
           unixNano now - ttl \<le> ts * 1000000000 \<and> ts * 1000000000 \<le> unixNano now + skew"
    using key by blast
  show "ts * 1000000000 < unixNano now - ttl \<Longrightarrow>
           \<not> After (Unix ts 0) (Add now skew) \<and> Sub now (Unix ts 0) > ttl"
    using key by blast
qed

subsection \<open>The freshness checks under a bounded policy\<close>

lemma bounded_effective:
  assumes "boundedPolicy wall config"
  shows "0 < effectiveTTL config" "effectiveTTL config < maxDuration"
    "int64 (effectiveSkew config)" "0 < effectiveSkew config"
    "saneClock (clockReading wall config)"
  using assms
  by (auto simp: boundedPolicy_def effectiveTTL_def effectiveSkew_def DefaultAuthTTL_def
      DefaultClockSkew_def Minute_def Second_def int64_def)

lemma otherwiseValid_result:
  assumes "otherwiseValid query botToken"
  shows "VerifyWithConfig wall query botToken config =
    (let authDateUnix = fst (ParseInt (TrimSpace (index query ''auth_date'')));
         now = clockReading wall config
     in
       if After (Unix authDateUnix 0) (Add now (effectiveSkew config))
         then (zeroAuthData, Some ErrTelegramAuthDateFuture)
       else if Sub now (Unix authDateUnix 0) > effectiveTTL config
         then (zeroAuthData, Some ErrTelegramAuthDateExpired)
       else
         (\<lparr>UserID = fst (ParseInt (TrimSpace (index query ''id''))),
           Username = index query ''username'',
           FirstName = index query ''first_name'',
           LastName = index query ''last_name'',
           PhotoURL = index query ''photo_url'',
           AuthDateUnix = authDateUnix\<rparr>, None))"
  using assms
  by (simp add: otherwiseValid_def VerifyWithConfig_stages fieldValidator_def Let_def)

lemma success_otherwiseValid:
  assumes "snd (VerifyWithConfig wall query botToken config) = None"
  shows "otherwiseValid query botToken"
  using assms
  by (simp add: otherwiseValid_def VerifyWithConfig_unfold Let_def split: if_splits)

lemma otherwiseValid_int64:
  "otherwiseValid query botToken \<Longrightarrow>
   int64 (fst (ParseInt (TrimSpace (index query ''auth_date''))))"
  by (metis ParseInt_int64 otherwiseValid_def prod.collapse)

lemma example_otherwiseValid: "otherwiseValid exampleQuery ''test-token''"
proof -
  have "TrimSpace (index exampleQuery ''id'') = ''42''"
    "TrimSpace (index exampleQuery ''auth_date'') = ''1800000000''"
    "ParseInt ''1800000000'' = (1800000000, None)"
    by code_simp+
  then show ?thesis
    by (simp add: otherwiseValid_def example_trim example_verifyHash example_hash_nonempty
        example_values)
qed

subsection \<open>A signed example with a timestamp of the year 1716\<close>

definition ancientHash :: string where
  "ancientHash = ''4c1904ddd39bfc1be0eafcd1d4aa229d9e2fb857660547f6e45782ca541c954a''"

definition ancientQuery :: query where
  "ancientQuery = [(''auth_date'', ''-8000000000''), (''hash'', ancientHash), (''id'', ''42'')]"

lemma ancient_check_string:
  "canonicalCheckString ancientQuery = ''auth_date=-8000000000'' @ [CHR 0x0A] @ ''id=42''"
  by code_simp

lemma ancient_digest:
  "DecodeString ancientHash
     = (HMAC_SHA256 (Sum256 ''test-token'') (''auth_date=-8000000000'' @ [CHR 0x0A] @ ''id=42''), None)"
  by code_simp

lemma ancient_trim:
  "TrimSpace ancientHash = ancientHash"
  "index ancientQuery ''hash'' = ancientHash"
  "ancientHash \<noteq> []"
  by code_simp+

lemma ancient_stage:
  "VerifyWithConfig wall ancientQuery ''test-token'' config = fieldValidator wall ancientQuery config"
  by (simp add: VerifyWithConfig_stages example_trim ancient_trim verifyHash_iff
      dataCheckString_canonical ancient_check_string ancient_digest)

subsection \<open>A signed example with the largest timestamp\<close>

definition farFutureHash :: string where
  "farFutureHash = ''12c58de51bbfe7470764f8b7217450112e4d1961aeb9d0e1f4aa505c62207e37''"

definition farFutureQuery :: query where
  "farFutureQuery = [(''auth_date'', ''9223372036854775807''), (''hash'', farFutureHash), (''id'', ''42'')]"

lemma farFuture_check_string:
  "canonicalCheckString farFutureQuery = ''auth_date=9223372036854775807'' @ [CHR 0x0A] @ ''id=42''"
  by code_simp

lemma farFuture_digest:
  "DecodeString farFutureHash
     = (HMAC_SHA256 (Sum256 ''test-token'') (''auth_date=9223372036854775807'' @ [CHR 0x0A] @ ''id=42''), None)"
  by code_simp

lemma farFuture_trim:
  "TrimSpace farFutureHash = farFutureHash"
  "index farFutureQuery ''hash'' = farFutureHash"
  "farFutureHash \<noteq> []"
  by code_simp+

lemma farFuture_stage:
  "VerifyWithConfig wall farFutureQuery ''test-token'' config = fieldValidator wall farFutureQuery config"
  by (simp add: VerifyWithConfig_stages example_trim farFuture_trim verifyHash_iff
      dataCheckString_canonical farFuture_check_string farFuture_digest)

text \<open>A policy that sets the maximum age to the largest duration.\<close>

definition maxAgePolicy :: VerifyConfig where
  "maxAgePolicy = \<lparr>AuthTTL = 9223372036854775807, ClockSkew = 0, Now = None\<rparr>"

lemma ancient_accepted:
  "fieldValidator (Unix 1800000000 0) ancientQuery maxAgePolicy
     = (\<lparr>UserID = 42, Username = [], FirstName = [], LastName = [], PhotoURL = [],
         AuthDateUnix = - 8000000000\<rparr>, None)"
  by code_simp

lemma farFuture_accepted:
  "fieldValidator (Unix 1800000000 0) farFutureQuery maxAgePolicy
     = (\<lparr>UserID = 42, Username = [], FirstName = [], LastName = [], PhotoURL = [],
         AuthDateUnix = 9223372036854775807\<rparr>, None)"
  by code_simp

lemma not_in_window:
  "\<not> inWindow (Unix 1800000000 0) maxAgePolicy (- 8000000000)"
  "\<not> inWindow (Unix 1800000000 0) maxAgePolicy 9223372036854775807"
  by code_simp+

section \<open>The claims\<close>

text \<open>
  C7. For every input mapping and policy, a shared secret that is empty or consists
  only of white space makes the verification fail with the configuration error,
  whatever the other fields of the input are; no other check is reached: the result
  is the zero record with \<open>ErrBotTokenRequired\<close>.
\<close>

theorem blank_secret_is_configuration_error:
  "blank botToken \<Longrightarrow>
   VerifyWithConfig wall query botToken config = (zeroAuthData, Some ErrBotTokenRequired)"
  by (simp add: VerifyWithConfig_def TrimSpace_blank)

theorem blank_secret_is_configuration_error_witness:
  "blank ''  '' \<and>
   VerifyWithConfig (Unix 1800000000 0) [(''id'', ''42''), (''hash'', ''deadbeef'')] ''  ''
     zeroVerifyConfig = (zeroAuthData, Some ErrBotTokenRequired)"
proof -
  have s: "'' '' \<in> set spaceRunes" by (simp add: spaceRunes_def)
  have "blank ('' '' @ '' '' @ [])"
    by (intro blank_Cons blank_Nil s)
  then have b: "blank ''  ''" by simp
  from blank_secret_is_configuration_error [OF b] b show ?thesis by blast
qed

text \<open>
  C9. Whenever the verification returns an error, the record returned with it is the
  zero record: every number is 0 and every text is empty. This holds for every input,
  secret and policy, and for each of the three entry points.
\<close>

theorem error_comes_with_zero_record:
  "(snd (VerifyWithConfig wall query botToken config) \<noteq> None \<longrightarrow>
      fst (VerifyWithConfig wall query botToken config) = zeroAuthData) \<and>
   (snd (Verify wall query botToken) \<noteq> None \<longrightarrow>
      fst (Verify wall query botToken) = zeroAuthData) \<and>
   (snd (VerifyURLValues wall values botToken) \<noteq> None \<longrightarrow>
      fst (VerifyURLValues wall values botToken) = zeroAuthData)"
proof -
  have "snd (VerifyWithConfig w q t c) \<noteq> None \<longrightarrow> fst (VerifyWithConfig w q t c) = zeroAuthData"
    for w q t c
    by (simp add: VerifyWithConfig_unfold Let_def)
  then show ?thesis by (simp add: Verify_def VerifyURLValues_def Let_def)
qed

theorem error_comes_with_zero_record_witness:
  "snd (VerifyWithConfig (Unix 1800000000 0) [(''id'', ''42'')] ''test-token'' zeroVerifyConfig)
     = Some ErrTelegramHashRequired \<and>
   fst (VerifyWithConfig (Unix 1800000000 0) [(''id'', ''42'')] ''test-token'' zeroVerifyConfig)
     = \<lparr>UserID = 0, Username = [], FirstName = [], LastName = [], PhotoURL = [],
        AuthDateUnix = 0\<rparr>"
proof -
  have e: "snd (VerifyWithConfig (Unix 1800000000 0) [(''id'', ''42'')] ''test-token''
             zeroVerifyConfig) = Some ErrTelegramHashRequired"
    by code_simp
  with error_comes_with_zero_record
    [of "Unix 1800000000 0" "[(''id'', ''42'')]" "''test-token''" zeroVerifyConfig]
  show ?thesis by (simp add: zeroAuthData_def)
qed

text \<open>
  C1. For every input mapping, trimmed shared secret and claimed signature, the signature
  verifier accepts exactly when the hex-decoded claimed signature equals HMAC-SHA256 of
  the canonical check string under the key SHA-256 of the bytes of the secret. The
  canonical check string formats every field except \<open>hash\<close> as \<open>key=value\<close>, sorts
  these strings bytewise and joins them with single newlines, none at the end. The
  claimed signature is decoded after its surrounding white space is trimmed (the caller
  passes it trimmed already).
\<close>

theorem signature_accepted_iff:
  "verifyHash query botToken expectedHash = None \<longleftrightarrow>
     DecodeString (TrimSpace expectedHash)
       = (HMAC_SHA256 (Sum256 botToken) (canonicalCheckString query), None)"
  by (simp add: verifyHash_iff dataCheckString_canonical)

theorem signature_accepted_iff_witness:
  "verifyHash exampleQuery ''test-token'' exampleHash = None \<and>
   canonicalCheckString exampleQuery
     = ''auth_date=1800000000'' @ [CHR 0x0A] @ ''id=42'' @ [CHR 0x0A] @ ''username=jd''"
  using signature_accepted_iff [of exampleQuery "''test-token''" exampleHash]
  by (simp add: example_trim example_check_string example_digest)

text \<open>
  C2. The verification runs its checks in the fixed order: secret not blank, signature
  field present after trimming, signature verified, identifier present, identifier
  parsed and in range, timestamp present, timestamp parsed, not from the future, not
  expired; and it returns the first failure. In particular a request with a bad
  signature is rejected with the integrity error whatever its identifier and its
  timestamp are.
\<close>

theorem checks_in_fixed_order:
  "snd (VerifyWithConfig wall query botToken config) = firstFailure (checks wall query botToken config) \<and>
   (TrimSpace botToken \<noteq> [] \<and> TrimSpace (index query ''hash'') \<noteq> [] \<and>
    verifyHash query (TrimSpace botToken) (TrimSpace (index query ''hash'')) \<noteq> None \<longrightarrow>
      VerifyWithConfig wall query botToken config = (zeroAuthData, Some ErrTelegramHashInvalid))"
proof
  show "snd (VerifyWithConfig wall query botToken config) = firstFailure (checks wall query botToken config)"
    by (cases "verifyHash query (TrimSpace botToken) (TrimSpace (index query ''hash''))")
       (simp_all add: VerifyWithConfig_unfold checks_def firstFailure_def Let_def)
next
  show "TrimSpace botToken \<noteq> [] \<and> TrimSpace (index query ''hash'') \<noteq> [] \<and>
    verifyHash query (TrimSpace botToken) (TrimSpace (index query ''hash'')) \<noteq> None \<longrightarrow>
      VerifyWithConfig wall query botToken config = (zeroAuthData, Some ErrTelegramHashInvalid)"
    using verifyHash_cases [of query "TrimSpace botToken" "TrimSpace (index query ''hash'')"]
    by (auto simp: VerifyWithConfig_stages)
qed

theorem checks_in_fixed_order_witness:
  "VerifyWithConfig (Unix 1800000000 0)
     [(''id'', ''0''), (''auth_date'', ''yesterday''), (''hash'', ''deadbeef'')] ''test-token''
     zeroVerifyConfig = (zeroAuthData, Some ErrTelegramHashInvalid) \<and>
   firstFailure (checks (Unix 1800000000 0)
     [(''id'', ''0''), (''auth_date'', ''yesterday''), (''hash'', ''deadbeef'')] ''test-token''
     zeroVerifyConfig) = Some ErrTelegramHashInvalid"
proof -
  let ?q = "[(''id'', ''0''), (''auth_date'', ''yesterday''), (''hash'', ''deadbeef'')]"
  have t: "TrimSpace ''test-token'' = ''test-token''" "TrimSpace (index ?q ''hash'') = ''deadbeef''"
    "TrimSpace ''deadbeef'' = ''deadbeef''"
    by code_simp+
  have "length (fst (DecodeString (TrimSpace ''deadbeef''))) = 4" by code_simp
  then have v: "verifyHash ?q ''test-token'' ''deadbeef'' = Some ErrTelegramHashInvalid"
    by (intro verifyHash_wrong_length) simp
  note th = checks_in_fixed_order [of "Unix 1800000000 0" ?q "''test-token''" zeroVerifyConfig]
  have a: "snd (VerifyWithConfig (Unix 1800000000 0) ?q ''test-token'' zeroVerifyConfig)
          = firstFailure (checks (Unix 1800000000 0) ?q ''test-token'' zeroVerifyConfig)"
    by (rule th [THEN conjunct1])
  have b: "VerifyWithConfig (Unix 1800000000 0) ?q ''test-token'' zeroVerifyConfig
          = (zeroAuthData, Some ErrTelegramHashInvalid)"
    using th [THEN conjunct2] by (simp add: t v)
  show ?thesis using a b by simp
qed

text \<open>
  C4. For every input whose signature field is present, a signature that fails hex
  decoding and a well-formed signature whose HMAC does not match give the same result:
  the zero record with \<open>ErrTelegramHashInvalid\<close>. Nothing in the result tells a malformed
  signature from a wrong one.
\<close>

theorem malformed_and_wrong_signature_alike:
  assumes "TrimSpace botToken \<noteq> []"
    and "sig = TrimSpace (index query ''hash'')" and "sig \<noteq> []"
  shows "(snd (DecodeString sig) \<noteq> None \<longrightarrow>
            VerifyWithConfig wall query botToken config = (zeroAuthData, Some ErrTelegramHashInvalid)) \<and>
         (snd (DecodeString sig) = None \<and>
          fst (DecodeString sig) \<noteq> HMAC_SHA256 (Sum256 (TrimSpace botToken)) (canonicalCheckString query) \<longrightarrow>
            VerifyWithConfig wall query botToken config = (zeroAuthData, Some ErrTelegramHashInvalid))"
proof -
  let ?mac = "HMAC_SHA256 (Sum256 (TrimSpace botToken)) (canonicalCheckString query)"
  have k: "VerifyWithConfig wall query botToken config = (zeroAuthData, Some ErrTelegramHashInvalid)"
    if "DecodeString sig \<noteq> (?mac, None)"
  proof -
    from that have "verifyHash query (TrimSpace botToken) sig \<noteq> None"
      by (simp add: verifyHash_iff dataCheckString_canonical assms(2) TrimSpace_idem)
    with verifyHash_cases [of query "TrimSpace botToken" sig]
    have "verifyHash query (TrimSpace botToken) sig = Some ErrTelegramHashInvalid" by simp
    with assms show ?thesis by (simp add: VerifyWithConfig_stages)
  qed
  show ?thesis
  proof (intro conjI impI)
    assume "snd (DecodeString sig) \<noteq> None"
    then have "DecodeString sig \<noteq> (?mac, None)" by auto
    then show "VerifyWithConfig wall query botToken config = (zeroAuthData, Some ErrTelegramHashInvalid)"
      by (rule k)
  next
    assume "snd (DecodeString sig) = None \<and> fst (DecodeString sig) \<noteq> ?mac"
    then have "DecodeString sig \<noteq> (?mac, None)" by auto
    then show "VerifyWithConfig wall query botToken config = (zeroAuthData, Some ErrTelegramHashInvalid)"
      by (rule k)
  qed
qed

theorem malformed_and_wrong_signature_alike_witness:
  "VerifyWithConfig (Unix 1800000000 0) [(''id'', ''42''), (''hash'', ''xyz'')] ''test-token''
     zeroVerifyConfig = (zeroAuthData, Some ErrTelegramHashInvalid) \<and>
   VerifyWithConfig (Unix 1800000000 0) [(''id'', ''42''), (''hash'', ''deadbeef'')] ''test-token''
     zeroVerifyConfig = (zeroAuthData, Some ErrTelegramHashInvalid)"
proof -
  let ?q1 = "[(''id'', ''42''), (''hash'', ''xyz'')]"
  let ?q2 = "[(''id'', ''42''), (''hash'', ''deadbeef'')]"
  have t: "TrimSpace ''test-token'' \<noteq> []" "''xyz'' = TrimSpace (index ?q1 ''hash'')"
    "''deadbeef'' = TrimSpace (index ?q2 ''hash'')"
    by code_simp+
  have d1: "snd (DecodeString ''xyz'') \<noteq> None" by code_simp
  have d2: "snd (DecodeString ''deadbeef'') = None" "length (fst (DecodeString ''deadbeef'')) = 4"
    by code_simp+
  have d3: "fst (DecodeString ''deadbeef'')
              \<noteq> HMAC_SHA256 (Sum256 (TrimSpace ''test-token'')) (canonicalCheckString ?q2)"
  proof
    assume "fst (DecodeString ''deadbeef'')
              = HMAC_SHA256 (Sum256 (TrimSpace ''test-token'')) (canonicalCheckString ?q2)"
    then have "length (fst (DecodeString ''deadbeef'')) = 32" by (simp add: length_HMAC_SHA256)
    with d2(2) show False by simp
  qed
  from malformed_and_wrong_signature_alike [OF t(1) t(2), of "Unix 1800000000 0" zeroVerifyConfig] d1
  have a: "VerifyWithConfig (Unix 1800000000 0) ?q1 ''test-token'' zeroVerifyConfig
             = (zeroAuthData, Some ErrTelegramHashInvalid)" by simp
  from malformed_and_wrong_signature_alike [OF t(1) t(3), of "Unix 1800000000 0" zeroVerifyConfig] d2(1) d3
  have b: "VerifyWithConfig (Unix 1800000000 0) ?q2 ''test-token'' zeroVerifyConfig
             = (zeroAuthData, Some ErrTelegramHashInvalid)" by simp
  from a b show ?thesis by simp
qed

text \<open>
  C10. The claimed signature is trimmed of surrounding white space before it is decoded
  and compared: for every correctly signed input, a signature field that holds the valid
  hex digest with white space before or after it passes the signature check, and the
  verification gives what it gives for the digest without the white space.
\<close>

theorem padded_signature_verifies:
  assumes "blank l" and "blank r" and "TrimSpace botToken \<noteq> []"
    and "DecodeString h
           = (HMAC_SHA256 (Sum256 (TrimSpace botToken)) (canonicalCheckString query), None)"
    and "index query ''hash'' = l @ h @ r"
  shows "TrimSpace (index query ''hash'') = h \<and>
         verifyHash query (TrimSpace botToken) (TrimSpace (index query ''hash'')) = None \<and>
         VerifyWithConfig wall query botToken config = fieldValidator wall query config \<and>
         VerifyWithConfig wall query botToken config
           = VerifyWithConfig wall (assign query ''hash'' h) botToken config"
proof -
  from assms(4) have hx: "h \<noteq> []" "\<forall>c\<in>set h. reverseHexTable c \<le> 15"
    using DecodeString_nonempty HMAC_nonempty by blast+
  have t: "TrimSpace (l @ h @ r) = h" using assms(1,2) hx by (rule TrimSpace_hex)
  have t0: "TrimSpace h = h" using TrimSpace_hex [OF blank_Nil blank_Nil hx] by simp
  have v: "verifyHash query (TrimSpace botToken) h = None"
    by (simp add: verifyHash_iff dataCheckString_canonical t0 assms(4))
  have v': "verifyHash (assign query ''hash'' h) (TrimSpace botToken) h = None"
    by (simp add: verifyHash_iff dataCheckString_canonical t0 assms(4) canonical_assign_hash)
  have a: "VerifyWithConfig wall query botToken config = fieldValidator wall query config"
    using assms(3) hx(1) by (simp add: VerifyWithConfig_stages assms(5) t v)
  have b: "VerifyWithConfig wall (assign query ''hash'' h) botToken config
             = fieldValidator wall query config"
    using assms(3) hx(1)
    by (simp add: VerifyWithConfig_stages index_assign t0 v' fieldValidator_assign_hash)
  show ?thesis using a b by (simp add: assms(5) t v)
qed

theorem padded_signature_verifies_witness:
  "blank [CHR 0x20, CHR 0x09] \<and> blank [CHR 0x0A] \<and>
   VerifyWithConfig (Unix 1800000100 0)
     (assign exampleQuery ''hash'' ([CHR 0x20, CHR 0x09] @ exampleHash @ [CHR 0x0A]))
     ''test-token'' zeroVerifyConfig
   = (\<lparr>UserID = 42, Username = ''jd'', FirstName = [], LastName = [], PhotoURL = [],
       AuthDateUnix = 1800000000\<rparr>, None)"
proof -
  let ?q = "assign exampleQuery ''hash'' ([CHR 0x20, CHR 0x09] @ exampleHash @ [CHR 0x0A])"
  have s: "[CHR 0x20] \<in> set spaceRunes" "[CHR 0x09] \<in> set spaceRunes" "[CHR 0x0A] \<in> set spaceRunes"
    by (simp_all add: spaceRunes_def)
  have "blank ([CHR 0x20] @ [CHR 0x09] @ [])" "blank ([CHR 0x0A] @ [])"
    by (intro blank_Cons blank_Nil s)+
  then have b: "blank [CHR 0x20, CHR 0x09]" "blank [CHR 0x0A]" by simp_all
  have t: "TrimSpace ''test-token'' \<noteq> []" by (simp add: example_trim)
  have d: "DecodeString exampleHash
             = (HMAC_SHA256 (Sum256 (TrimSpace ''test-token'')) (canonicalCheckString ?q), None)"
    by (simp add: canonical_assign_hash example_check_string example_digest example_trim)
  have i: "index ?q ''hash'' = [CHR 0x20, CHR 0x09] @ exampleHash @ [CHR 0x0A]"
    by (simp add: index_assign)
  from padded_signature_verifies [OF b t d i, of "Unix 1800000100 0" zeroVerifyConfig]
  have "VerifyWithConfig (Unix 1800000100 0) ?q ''test-token'' zeroVerifyConfig
          = fieldValidator (Unix 1800000100 0) ?q zeroVerifyConfig" by simp
  then show ?thesis using b by (simp add: fieldValidator_assign_hash example_fields)
qed

text \<open>
  C6. For every correctly signed input with an identifier field, an identifier that is
  no base-10 notation of a signed 64-bit integer, or that denotes zero or a negative
  number, gives the one error \<open>ErrTelegramIDInvalid\<close>, wrapped together with the text of
  the identifier; \<open>0\<close> and \<open>-1\<close> are such identifiers. The identifier \<open>42\<close> passes: no
  error about the identifier is returned for it.
\<close>

theorem invalid_identifier:
  assumes "TrimSpace botToken \<noteq> []" and "TrimSpace (index query ''hash'') \<noteq> []"
    and "verifyHash query (TrimSpace botToken) (TrimSpace (index query ''hash'')) = None"
    and "idValue = TrimSpace (index query ''id'')" and "idValue \<noteq> []"
  shows "((\<nexists>n. denotes idValue n) \<or> (\<exists>n\<le>0. denotes idValue n) \<longrightarrow>
            VerifyWithConfig wall query botToken config
              = (zeroAuthData, Some (Errorf ErrTelegramIDInvalid idValue)) \<and>
            Is (Errorf ErrTelegramIDInvalid idValue) ErrTelegramIDInvalid) \<and>
         (idValue = ''0'' \<or> idValue = ''-1'' \<longrightarrow>
            VerifyWithConfig wall query botToken config
              = (zeroAuthData, Some (Errorf ErrTelegramIDInvalid idValue))) \<and>
         (idValue = ''42'' \<longrightarrow>
            (\<forall>e. snd (VerifyWithConfig wall query botToken config) = Some e \<longrightarrow>
                 \<not> Is e ErrTelegramIDInvalid \<and> \<not> Is e ErrTelegramIDRequired))"
proof -
  have st: "VerifyWithConfig wall query botToken config = fieldValidator wall query config"
    using assms(1-3) by (simp add: VerifyWithConfig_stages)
  obtain u e where p: "ParseInt idValue = (u, e)" by (cases "ParseInt idValue")
  have bad: "VerifyWithConfig wall query botToken config
               = (zeroAuthData, Some (Errorf ErrTelegramIDInvalid idValue))"
    if "e \<noteq> None \<or> u \<le> 0"
    using that assms(5) p unfolding st fieldValidator_def Let_def assms(4) [symmetric]
    by auto
  have a: "e \<noteq> None \<or> u \<le> 0" if "(\<nexists>n. denotes idValue n) \<or> (\<exists>n\<le>0. denotes idValue n)"
    using that p by (cases e) (auto simp: ParseInt_iff [symmetric])
  have b: "e \<noteq> None \<or> u \<le> 0" if "idValue = ''0'' \<or> idValue = ''-1''"
    using that p by (auto simp: example_values)
  have c: "\<not> Is err ErrTelegramIDInvalid \<and> \<not> Is err ErrTelegramIDRequired"
    if "idValue = ''42''" "snd (VerifyWithConfig wall query botToken config) = Some err" for err
  proof -
    obtain u2 e2 where p2: "ParseInt (TrimSpace (index query ''auth_date'')) = (u2, e2)"
      by (cases "ParseInt (TrimSpace (index query ''auth_date''))")
    from that(1) p have "u = 42" "e = None" by (simp_all add: example_values)
    with that(2) have "err \<in> {ErrTelegramAuthDateRequired,
        Errorf ErrTelegramAuthDateInvalid (TrimSpace (index query ''auth_date'')),
        ErrTelegramAuthDateFuture, ErrTelegramAuthDateExpired}"
      using assms(5) p unfolding st fieldValidator_def Let_def assms(4) [symmetric] p2
      by (auto split: if_splits)
    then show ?thesis by (auto simp: Is_simps)
  qed
  show ?thesis using a b c bad by (simp add: Is_simps)
qed

theorem invalid_identifier_witness:
  "denotes ''0'' 0 \<and>
   VerifyWithConfig (Unix 1800000000 0) zeroIdQuery ''test-token'' zeroVerifyConfig
     = (zeroAuthData, Some (Errorf ErrTelegramIDInvalid ''0'')) \<and>
   Is (Errorf ErrTelegramIDInvalid ''0'') ErrTelegramIDInvalid"
proof -
  have t: "TrimSpace ''test-token'' \<noteq> []" by (simp add: example_trim)
  have h: "TrimSpace (index zeroIdQuery ''hash'') \<noteq> []" by (simp add: zeroId_trim)
  have v: "verifyHash zeroIdQuery (TrimSpace ''test-token'')
             (TrimSpace (index zeroIdQuery ''hash'')) = None"
    by (simp add: example_trim zeroId_trim zeroId_verifyHash)
  have i: "''0'' = TrimSpace (index zeroIdQuery ''id'')" "''0'' \<noteq> []"
    by (simp_all add: zeroId_trim)
  have d: "denotes ''0'' 0" by (simp add: ParseInt_iff [symmetric] example_values)
  then have "(\<nexists>n. denotes ''0'' n) \<or> (\<exists>n\<le>0. denotes ''0'' n)" by auto
  with invalid_identifier [OF t h v i, of "Unix 1800000000 0" zeroVerifyConfig] d
  show ?thesis by blast
qed

text \<open>
  C8. The adapter flattens a container of query parameters, in which a key has a list of
  values, to a mapping with the first value of each key (the empty string when the list
  is empty), checks nothing itself and hands the mapping to \<open>Verify\<close>. In particular,
  with \<open>id = ["42", "999"]\<close> the identifier of a resulting record is 42. (The keys of a Go
  map are distinct.)
\<close>

theorem adapter_takes_first_value:
  assumes "distinct (map fst values)"
  shows "VerifyURLValues wall values botToken = Verify wall (flatten values) botToken \<and>
         (\<forall>key v rest. map_of values key = Some (v # rest) \<longrightarrow> index (flatten values) key = v) \<and>
         (map_of values ''id'' = Some [''42'', ''999''] \<and>
          snd (VerifyURLValues wall values botToken) = None \<longrightarrow>
            UserID (fst (VerifyURLValues wall values botToken)) = 42)"
proof -
  have a: "VerifyURLValues wall values botToken = Verify wall (flatten values) botToken"
    by (simp add: VerifyURLValues_def flatten_loop [OF assms])
  have b: "UserID (fst (VerifyURLValues wall values botToken)) = 42"
    if "map_of values ''id'' = Some [''42'', ''999'']"
      "snd (VerifyURLValues wall values botToken) = None"
  proof -
    from that(1) have "index (flatten values) ''id'' = ''42''" by (rule index_flatten)
    moreover from that(2) have
      "UserID (fst (VerifyWithConfig wall (flatten values) botToken zeroVerifyConfig))
         = fst (ParseInt (TrimSpace (index (flatten values) ''id'')))"
      unfolding a Verify_def by (rule success_UserID)
    ultimately show ?thesis by (simp add: a Verify_def example_values)
  qed
  show ?thesis using a b by (simp add: index_flatten)
qed

theorem adapter_takes_first_value_witness:
  "distinct (map fst [(''id'', [''42'', ''999'']), (''username'', [''jd'']),
       (''auth_date'', [''1800000000'']), (''hash'', [exampleHash])]) \<and>
   VerifyURLValues (Unix 1800000100 0)
     [(''id'', [''42'', ''999'']), (''username'', [''jd'']),
      (''auth_date'', [''1800000000'']), (''hash'', [exampleHash])] ''test-token''
   = (\<lparr>UserID = 42, Username = ''jd'', FirstName = [], LastName = [], PhotoURL = [],
       AuthDateUnix = 1800000000\<rparr>, None)"
proof -
  let ?v = "[(''id'', [''42'', ''999'']), (''username'', [''jd'']),
      (''auth_date'', [''1800000000'']), (''hash'', [exampleHash])]"
  have d: "distinct (map fst ?v)" by simp
  have f: "flatten ?v = exampleQuery" by (simp add: flatten_def exampleQuery_def)
  from adapter_takes_first_value [OF d, of "Unix 1800000100 0" "''test-token''"]
  have "VerifyURLValues (Unix 1800000100 0) ?v ''test-token''
          = Verify (Unix 1800000100 0) exampleQuery ''test-token''"
    by (simp add: f)
  then show ?thesis using d by (simp add: Verify_def example_stage example_fields)
qed

text \<open>
  C3 (amended). For every input that is valid but for its freshness, under a policy whose
  maximum age in effect is below the largest duration (\<open>2^63 - 1\<close> nanoseconds) and
  whose clock reading is well formed and within \<open>2^62\<close> seconds of the epoch, the
  timestamp is accepted exactly when it lies in the closed interval
  \<open>[now - maxAge, now + maxSkew]\<close>. A timestamp equal to \<open>now + maxSkew\<close> succeeds and
  one second later fails with the future error; a timestamp equal to \<open>now - maxAge\<close>
  succeeds and one second older fails with the expired error. Every older timestamp is
  expired, and every later one that \<open>time.Unix\<close> represents without wrap-around is from
  the future.
\<close>

theorem freshness_window:
  assumes "otherwiseValid query botToken"
    and "ts = fst (ParseInt (TrimSpace (index query ''auth_date'')))"
    and "now = clockReading wall config"
    and "boundedPolicy wall config"
  shows "(snd (VerifyWithConfig wall query botToken config) = None \<longleftrightarrow> inWindow now config ts) \<and>
         (ts * 1000000000 = unixNano now + effectiveSkew config + Second \<longrightarrow>
            snd (VerifyWithConfig wall query botToken config) = Some ErrTelegramAuthDateFuture) \<and>
         (ts * 1000000000 = unixNano now - effectiveTTL config - Second \<longrightarrow>
            snd (VerifyWithConfig wall query botToken config) = Some ErrTelegramAuthDateExpired) \<and>
         (unixNano now + effectiveSkew config < ts * 1000000000 \<and> ts + unixToInternal < 2 ^ 63 \<longrightarrow>
            snd (VerifyWithConfig wall query botToken config) = Some ErrTelegramAuthDateFuture) \<and>
         (ts * 1000000000 < unixNano now - effectiveTTL config \<longrightarrow>
            snd (VerifyWithConfig wall query botToken config) = Some ErrTelegramAuthDateExpired)"
proof -
  note be = bounded_effective [OF assms(4)]
  have sane: "saneClock now" using be(5) by (simp add: assms(3))
  have its: "int64 ts" unfolding assms(2) using assms(1) by (rule otherwiseValid_int64)
  note fr = freshness [OF sane its be(3,4,1,2)]
  let ?future = "After (Unix ts 0) (Add now (effectiveSkew config))"
  let ?expired = "Sub now (Unix ts 0) > effectiveTTL config"
  have res: "snd (VerifyWithConfig wall query botToken config) =
      (if ?future then Some ErrTelegramAuthDateFuture
       else if ?expired then Some ErrTelegramAuthDateExpired else None)"
    by (simp add: otherwiseValid_result [OF assms(1)] Let_def assms(2,3))
  have a: "snd (VerifyWithConfig wall query botToken config) = None \<longleftrightarrow> inWindow now config ts"
    using fr(2) by (auto simp: res inWindow_def)
  have d: "snd (VerifyWithConfig wall query botToken config) = Some ErrTelegramAuthDateFuture"
    if "unixNano now + effectiveSkew config < ts * 1000000000" "ts + unixToInternal < 2 ^ 63"
    using that fr(1) by (simp add: res)
  have e: "snd (VerifyWithConfig wall query botToken config) = Some ErrTelegramAuthDateExpired"
    if "ts * 1000000000 < unixNano now - effectiveTTL config"
    using fr(3) [OF that] by (simp add: res)
  have b: "snd (VerifyWithConfig wall query botToken config) = Some ErrTelegramAuthDateFuture"
    if h: "ts * 1000000000 = unixNano now + effectiveSkew config + Second"
  proof -
    note sb = sane_bounds [OF sane]
    have "effectiveSkew config < 9223372036854775808" using be(3) unfolding int64_iff by simp
    moreover have "(sec now - 62135596800) * 1000000000 \<le> 4611686018427387904 * 1000000000"
      using sb(2) by (intro mult_right_mono) simp_all
    ultimately have "ts * 1000000000 < 4611686030000000000 * 1000000000"
      using h sb(4) by (simp add: unixNano_def unixToInternal_val Second_def)
    then have "ts < 4611686030000000000" by simp
    then have "ts + unixToInternal < 2 ^ 63" by (simp add: unixToInternal_val)
    moreover have "unixNano now + effectiveSkew config < ts * 1000000000"
      using h by (simp add: Second_def)
    ultimately show ?thesis by (intro d)
  qed
  have c: "snd (VerifyWithConfig wall query botToken config) = Some ErrTelegramAuthDateExpired"
    if "ts * 1000000000 = unixNano now - effectiveTTL config - Second"
    using that by (intro e) (simp add: Second_def)
  show ?thesis using a b c d e by blast
qed

theorem freshness_window_witness:
  "otherwiseValid exampleQuery ''test-token'' \<and>
   boundedPolicy (Unix 0 0) \<lparr>AuthTTL = 0, ClockSkew = 0, Now = Some (\<lambda>_. Unix 1799999970 0)\<rparr> \<and>
   inWindow (Unix 1799999970 0)
     \<lparr>AuthTTL = 0, ClockSkew = 0, Now = Some (\<lambda>_. Unix 1799999970 0)\<rparr> 1800000000 \<and>
   snd (VerifyWithConfig (Unix 0 0) exampleQuery ''test-token''
     \<lparr>AuthTTL = 0, ClockSkew = 0, Now = Some (\<lambda>_. Unix 1799999970 0)\<rparr>) = None \<and>
   snd (VerifyWithConfig (Unix 0 0) exampleQuery ''test-token''
     \<lparr>AuthTTL = 0, ClockSkew = 0, Now = Some (\<lambda>_. Unix 1799999969 0)\<rparr>)
     = Some ErrTelegramAuthDateFuture"
proof -
  let ?a = "\<lparr>AuthTTL = 0, ClockSkew = 0, Now = Some (\<lambda>_. Unix 1799999970 0)\<rparr>"
  let ?b = "\<lparr>AuthTTL = 0, ClockSkew = 0, Now = Some (\<lambda>_. Unix 1799999969 0)\<rparr>"
  have ts: "1800000000 = fst (ParseInt (TrimSpace (index exampleQuery ''auth_date'')))"
    by code_simp
  have na: "Unix 1799999970 0 = clockReading (Unix 0 0) ?a"
    and nb: "Unix 1799999969 0 = clockReading (Unix 0 0) ?b"
    by (simp_all add: clockReading_def)
  have pa: "boundedPolicy (Unix 0 0) ?a" and pb: "boundedPolicy (Unix 0 0) ?b"
    by code_simp+
  have w: "inWindow (Unix 1799999970 0) ?a 1800000000" by code_simp
  have f: "1800000000 * 1000000000 = unixNano (Unix 1799999969 0) + effectiveSkew ?b + Second"
    by code_simp
  from freshness_window [OF example_otherwiseValid ts na pa] w
  have a: "snd (VerifyWithConfig (Unix 0 0) exampleQuery ''test-token'' ?a) = None" by blast
  from freshness_window [OF example_otherwiseValid ts nb pb] f
  have b: "snd (VerifyWithConfig (Unix 0 0) exampleQuery ''test-token'' ?b)
             = Some ErrTelegramAuthDateFuture" by blast
  show ?thesis using example_otherwiseValid pa w a b by blast
qed

text \<open>
  The claim as it is written fails when the maximum age is the largest duration: the
  difference \<open>now.Sub(authDate)\<close> saturates at that duration and is never greater. A
  correctly signed timestamp of the year 1716 is then accepted in 2027, although it is
  more than \<open>2^63 - 1\<close> nanoseconds old and so outside the window.
\<close>

theorem freshness_window_counterexample:
  "snd (VerifyWithConfig (Unix 1800000000 0) ancientQuery ''test-token'' maxAgePolicy) = None \<and>
   fst (ParseInt (TrimSpace (index ancientQuery ''auth_date''))) = - 8000000000 \<and>
   \<not> inWindow (clockReading (Unix 1800000000 0) maxAgePolicy) maxAgePolicy (- 8000000000)"
proof -
  have "fst (ParseInt (TrimSpace (index ancientQuery ''auth_date''))) = - 8000000000"
    by code_simp
  moreover have "clockReading (Unix 1800000000 0) maxAgePolicy = Unix 1800000000 0"
    by (simp add: clockReading_def maxAgePolicy_def)
  ultimately show ?thesis by (simp add: ancient_stage ancient_accepted not_in_window)
qed

text \<open>
  C5 (amended). Whenever the verification succeeds, the identifier of the record is the
  base-10 parse of the (trimmed) identifier field and is strictly positive, its timestamp
  is the base-10 parse of the (trimmed) timestamp field (\<open>ParseInt\<close> returns them, and the
  fields denote them in base 10), both within 64 bits, and the display fields are the
  values of the input as they are, the empty string for an absent field. A record is
  returned only when the secret and every required field were there and the signature
  matched; and, under a policy whose maximum age in effect is below the largest duration
  (\<open>2^63 - 1\<close> nanoseconds) and whose clock reading is well formed and within \<open>2^62\<close>
  seconds of the epoch, only when the timestamp lay in \<open>[now - maxAge, now + maxSkew]\<close>.
\<close>

theorem success_record:
  assumes "VerifyWithConfig wall query botToken config = (r, None)"
  shows "ParseInt (TrimSpace (index query ''id'')) = (UserID r, None) \<and> 0 < UserID r \<and>
         ParseInt (TrimSpace (index query ''auth_date'')) = (AuthDateUnix r, None) \<and>
         denotes (TrimSpace (index query ''id'')) (UserID r) \<and>
         denotes (TrimSpace (index query ''auth_date'')) (AuthDateUnix r) \<and>
         int64 (UserID r) \<and> int64 (AuthDateUnix r) \<and>
         Username r = index query ''username'' \<and> FirstName r = index query ''first_name'' \<and>
         LastName r = index query ''last_name'' \<and> PhotoURL r = index query ''photo_url'' \<and>
         (\<forall>k. k \<notin> fst ` set query \<longrightarrow> index query k = []) \<and>
         TrimSpace botToken \<noteq> [] \<and> TrimSpace (index query ''hash'') \<noteq> [] \<and>
         TrimSpace (index query ''id'') \<noteq> [] \<and> TrimSpace (index query ''auth_date'') \<noteq> [] \<and>
         DecodeString (TrimSpace (index query ''hash''))
           = (HMAC_SHA256 (Sum256 (TrimSpace botToken)) (canonicalCheckString query), None) \<and>
         (boundedPolicy wall config \<longrightarrow>
            inWindow (clockReading wall config) config (AuthDateUnix r))"
proof -
  from assms have ok: "snd (VerifyWithConfig wall query botToken config) = None" by simp
  then have ov: "otherwiseValid query botToken" by (rule success_otherwiseValid)
  obtain u1 e1 where p1: "ParseInt (TrimSpace (index query ''id'')) = (u1, e1)"
    by (cases "ParseInt (TrimSpace (index query ''id''))")
  obtain u2 e2 where p2: "ParseInt (TrimSpace (index query ''auth_date'')) = (u2, e2)"
    by (cases "ParseInt (TrimSpace (index query ''auth_date''))")
  from ov have g: "TrimSpace botToken \<noteq> []" "TrimSpace (index query ''hash'') \<noteq> []"
      "verifyHash query (TrimSpace botToken) (TrimSpace (index query ''hash'')) = None"
      "TrimSpace (index query ''id'') \<noteq> []" "e1 = None" "0 < u1"
      "TrimSpace (index query ''auth_date'') \<noteq> []" "e2 = None"
    by (simp_all add: otherwiseValid_def p1 p2)
  let ?future = "After (Unix u2 0) (Add (clockReading wall config) (effectiveSkew config))"
  let ?expired = "Sub (clockReading wall config) (Unix u2 0) > effectiveTTL config"
  from assms have f: "\<not> ?future" "\<not> ?expired"
      "r = \<lparr>UserID = u1, Username = index query ''username'',
             FirstName = index query ''first_name'', LastName = index query ''last_name'',
             PhotoURL = index query ''photo_url'', AuthDateUnix = u2\<rparr>"
    unfolding otherwiseValid_result [OF ov] Let_def p1 p2
    by (simp_all split: if_splits)
  from g(3) have d: "DecodeString (TrimSpace (index query ''hash''))
           = (HMAC_SHA256 (Sum256 (TrimSpace botToken)) (canonicalCheckString query), None)"
    by (simp add: verifyHash_iff dataCheckString_canonical TrimSpace_idem)
  have i: "int64 u1" "int64 u2"
    using p1 p2 g(5,8) by (auto intro: ParseInt_int64)
  have n: "denotes (TrimSpace (index query ''id'')) u1"
      "denotes (TrimSpace (index query ''auth_date'')) u2"
    using p1 p2 g(5,8) by (simp_all add: ParseInt_iff [symmetric])
  have w: "inWindow (clockReading wall config) config u2" if b: "boundedPolicy wall config"
  proof -
    note be = bounded_effective [OF b]
    from freshness(2) [OF be(5) i(2) be(3,4,1,2)] f(1,2)
    show ?thesis by (simp add: inWindow_def)
  qed
  show ?thesis
    using g d i p1 p2 n f(3) w by (simp add: index_absent)
qed

theorem success_record_witness:
  "boundedPolicy (Unix 1800000100 0) zeroVerifyConfig \<and>
   VerifyWithConfig (Unix 1800000100 0) exampleQuery ''test-token'' zeroVerifyConfig
     = (\<lparr>UserID = 42, Username = ''jd'', FirstName = [], LastName = [], PhotoURL = [],
         AuthDateUnix = 1800000000\<rparr>, None) \<and>
   ParseInt (TrimSpace (index exampleQuery ''id'')) = (42, None) \<and>
   ParseInt (TrimSpace (index exampleQuery ''auth_date'')) = (1800000000, None) \<and>
   index exampleQuery ''first_name'' = [] \<and>
   inWindow (clockReading (Unix 1800000100 0) zeroVerifyConfig) zeroVerifyConfig 1800000000"
proof -
  have e: "VerifyWithConfig (Unix 1800000100 0) exampleQuery ''test-token'' zeroVerifyConfig
     = (\<lparr>UserID = 42, Username = ''jd'', FirstName = [], LastName = [], PhotoURL = [],
         AuthDateUnix = 1800000000\<rparr>, None)"
    by (simp add: example_stage example_fields)
  have b: "boundedPolicy (Unix 1800000100 0) zeroVerifyConfig" by code_simp
  from success_record [OF e] e b show ?thesis by simp
qed

text \<open>
  The clause on the timestamp fails, as the claim is written, when the maximum age is the
  largest duration: \<open>time.Unix\<close> wraps the largest timestamp around to a time long past,
  so it is not after the clock reading, and the saturated difference is not greater than
  the maximum age. A record is returned for a timestamp far beyond \<open>now + maxSkew\<close>.
\<close>

theorem success_record_counterexample:
  "VerifyWithConfig (Unix 1800000000 0) farFutureQuery ''test-token'' maxAgePolicy
     = (\<lparr>UserID = 42, Username = [], FirstName = [], LastName = [], PhotoURL = [],
         AuthDateUnix = 9223372036854775807\<rparr>, None) \<and>
   \<not> inWindow (clockReading (Unix 1800000000 0) maxAgePolicy) maxAgePolicy 9223372036854775807"
proof -
  have "clockReading (Unix 1800000000 0) maxAgePolicy = Unix 1800000000 0"
    by (simp add: clockReading_def maxAgePolicy_def)
  then show ?thesis by (simp add: farFuture_stage farFuture_accepted not_in_window)
qed

end
